theory Spec2Isabelle
  imports Complex_Main
begin

section \<open>Data model\<close>

text \<open>
  The module \<^verbatim>\<open>src/utils/images_grid.py\<close> works on PIL images, which it reaches
  through references: \<^verbatim>\<open>paste\<close> and \<^verbatim>\<open>ImageDraw.text\<close> mutate the image they are
  given, \<^verbatim>\<open>Image.new\<close> and \<^verbatim>\<open>crop\<close> allocate a new one. The embedding therefore
  threads an explicit store: a list of images, a reference being an index into it, and
  allocation appending at the end. Beside the store the state keeps the trace of the
  calls made to the image library, in the order the program makes them, and what the
  image library can allocate: \<open>allocable s (w, h)\<close> says that, in the state \<open>s\<close>, the
  library has the memory for a new image of \<open>w\<close> by \<open>h\<close> pixels and none of its own
  limits refuses it.

  All images are taken to be RGB rasters. A raster is its size and a function from
  coordinates to pixels, which is read only inside the bounds of the image.
\<close>

datatype pixel = RGB nat nat nat

definition white :: pixel where
  "white = RGB 255 255 255"

definition black :: pixel where
  "black = RGB 0 0 0"

type_synonym ref = nat

record Image =
  im_size :: "int \<times> int"
  im_px :: "int \<Rightarrow> int \<Rightarrow> pixel"

definition in_bounds :: "Image \<Rightarrow> int \<Rightarrow> int \<Rightarrow> bool" where
  "in_bounds im x y \<longleftrightarrow> 0 \<le> x \<and> x < fst (im_size im) \<and> 0 \<le> y \<and> y < snd (im_size im)"

datatype error =
    IndexError | ZeroDivisionError | ValueError string | TypeError | OverflowError | MemoryError

datatype call =
    New ref "int \<times> int" pixel
  | Crop ref "int \<times> int \<times> int \<times> int" ref
  | Paste ref ref "int \<times> int"
  | Text ref "rat \<times> rat" string pixel

record state =
  heap :: "Image list"
  calls :: "call list"
  allocable :: "int \<times> int \<Rightarrow> bool"

text \<open>
  A Python number is an \<^verbatim>\<open>int\<close> or a \<^verbatim>\<open>float\<close>; a float is idealised as a rational.
  The arithmetic the program does on numbers: \<^verbatim>\<open>x // 2\<close>, \<^verbatim>\<open>x + y\<close> and
  \<^verbatim>\<open>x * y\<close>, whose result is an \<^verbatim>\<open>int\<close> only when both operands are.
\<close>

datatype py_num = PyInt int | PyFloat rat

fun py_val :: "py_num \<Rightarrow> rat" where
  "py_val (PyInt n) = of_int n"
| "py_val (PyFloat q) = q"

fun py_floordiv2 :: "py_num \<Rightarrow> py_num" where
  "py_floordiv2 (PyInt n) = PyInt (n div 2)"
| "py_floordiv2 (PyFloat q) = PyFloat (of_int \<lfloor>q / 2\<rfloor>)"

fun py_add :: "py_num \<Rightarrow> py_num \<Rightarrow> py_num" where
  "py_add (PyInt a) (PyInt b) = PyInt (a + b)"
| "py_add x y = PyFloat (py_val x + py_val y)"

fun py_mul :: "py_num \<Rightarrow> py_num \<Rightarrow> py_num" where
  "py_mul (PyInt a) (PyInt b) = PyInt (a * b)"
| "py_mul x y = PyFloat (py_val x * py_val y)"

text \<open>
  A font is an external object. The program reads its \<^verbatim>\<open>size\<close> (a number: Pillow
  accepts an \<^verbatim>\<open>int\<close> or a \<^verbatim>\<open>float\<close>), measures text with
  \<^verbatim>\<open>getlength\<close> (a float, here a rational) and, through the drawing handle, with
  \<^verbatim>\<open>textbbox((0, 0), text)\<close> (four integers), and rasterises text with \<^verbatim>\<open>text\<close>.
  What the rasteriser paints is not part of this repository: it is the field
  \<open>render\<close>, an arbitrary transformation of the pixels of the target image that leaves
  its size alone.
\<close>

record FreeTypeFont =
  font_size :: py_num
  getlength :: "string \<Rightarrow> rat"
  textbbox :: "string \<Rightarrow> int \<times> int \<times> int \<times> int"
  render :: "rat \<times> rat \<Rightarrow> string \<Rightarrow> pixel \<Rightarrow> (int \<Rightarrow> int \<Rightarrow> pixel) \<Rightarrow> int \<Rightarrow> int \<Rightarrow> pixel"

text \<open>The dataclass \<^verbatim>\<open>Annotation\<close>.\<close>

record Annotation =
  column_texts :: "string list"
  row_texts :: "string list"
  font :: FreeTypeFont

text \<open>
  The dataclass \<^verbatim>\<open>_GridInfo\<close>, with fields \<^verbatim>\<open>image\<close>, \<^verbatim>\<open>gap\<close> and
  \<^verbatim>\<open>one_image_size\<close>.
\<close>

record GridInfo =
  gi_image :: ref
  gi_gap :: int
  gi_one_image_size :: "int \<times> int"

text \<open>The handle \<^verbatim>\<open>ImageDraw.Draw(image)\<close> with its \<^verbatim>\<open>font\<close> attribute set.\<close>

record ImageDraw =
  draw_image :: ref
  draw_font :: FreeTypeFont

section \<open>The image library\<close>

text \<open>
  \<^verbatim>\<open>Image.new("RGB", size, color)\<close> for a size of two \<^verbatim>\<open>int\<close>s. It refuses a negative
  width or height, a width or height that does not fit a C \<^verbatim>\<open>int\<close>, and a size it
  cannot allocate; otherwise it allocates a raster filled with the colour. (A size with
  a \<^verbatim>\<open>float\<close> in it is refused with \<^verbatim>\<open>TypeError\<close>: that case is a branch of the
  one caller that can pass a float, \<open>create_grid_annotations\<close>.)
\<close>

definition Image_new :: "int \<times> int \<Rightarrow> pixel \<Rightarrow> state \<Rightarrow> (error + ref) \<times> state" where
  "Image_new sz colour s =
     (if fst sz < 0 \<or> snd sz < 0 then (Inl (ValueError ''Width and height must be >= 0''), s)
      else if 2147483647 < fst sz \<or> 2147483647 < snd sz then (Inl OverflowError, s)
      else if \<not> allocable s sz then (Inl MemoryError, s)
      else (Inr (length (heap s)),
            s\<lparr>heap := heap s @ [\<lparr>im_size = sz, im_px = (\<lambda>x y. colour)\<rparr>],
              calls := calls s @ [New (length (heap s)) sz colour]\<rparr>))"

text \<open>
  \<^verbatim>\<open>image.crop(box)\<close> allocates a new raster of the size of the box; a pixel of the
  box that lies outside the source is black. The source is not changed. The program
  only calls it with the box \<open>(0, 0, w, h)\<close> of the size of the first input image: the
  box is never inverted, and the crop is no larger than an image the store already
  holds.
\<close>

definition crop :: "ref \<Rightarrow> int \<times> int \<times> int \<times> int \<Rightarrow> state \<Rightarrow> ref \<times> state" where
  "crop r box s =
     (case box of (left, upper, right, lower) \<Rightarrow>
        (length (heap s),
         s\<lparr>heap := heap s @
               [\<lparr>im_size = (right - left, lower - upper),
                 im_px = (\<lambda>x y. if in_bounds (heap s ! r) (x + left) (y + upper)
                                then im_px (heap s ! r) (x + left) (y + upper) else black)\<rparr>],
           calls := calls s @ [Crop r box (length (heap s))]\<rparr>))"

text \<open>
  \<^verbatim>\<open>dst.paste(src, (x, y))\<close> copies the source over the destination with its top-left
  corner at \<open>(x, y)\<close>, clipped to the destination; only the destination changes.
\<close>

definition paste :: "ref \<Rightarrow> ref \<Rightarrow> int \<times> int \<Rightarrow> state \<Rightarrow> state" where
  "paste dst src xy s =
     s\<lparr>heap := (heap s)[dst := (heap s ! dst)
               \<lparr>im_px := (\<lambda>x y. if in_bounds (heap s ! src) (x - fst xy) (y - snd xy)
                               then im_px (heap s ! src) (x - fst xy) (y - snd xy)
                               else im_px (heap s ! dst) x y)\<rparr>],
       calls := calls s @ [Paste dst src xy]\<rparr>"

text \<open>\<^verbatim>\<open>draw.text(position, text, fill=fill)\<close> paints on the image of the handle.\<close>

definition draw_text :: "ImageDraw \<Rightarrow> rat \<times> rat \<Rightarrow> string \<Rightarrow> pixel \<Rightarrow> state \<Rightarrow> state" where
  "draw_text draw pos txt fill s =
     s\<lparr>heap := (heap s)[draw_image draw := (heap s ! draw_image draw)
               \<lparr>im_px := render (draw_font draw) pos txt fill (im_px (heap s ! draw_image draw))\<rparr>],
       calls := calls s @ [Text (draw_image draw) pos txt fill]\<rparr>"

section \<open>Python primitives\<close>

text \<open>\<^verbatim>\<open>xs[i]\<close>: a negative index counts from the end, an index out of range raises.\<close>

definition py_index :: "'a list \<Rightarrow> int \<Rightarrow> error + 'a" where
  "py_index xs i =
     (if 0 \<le> i \<and> i < int (length xs) then Inr (xs ! nat i)
      else if i < 0 \<and> - int (length xs) \<le> i then Inr (xs ! nat (int (length xs) + i))
      else Inl IndexError)"

text \<open>\<^verbatim>\<open>int(x)\<close> of a float truncates towards zero.\<close>

definition py_int :: "rat \<Rightarrow> int" where
  "py_int q = (if 0 \<le> q then \<lfloor>q\<rfloor> else \<lceil>q\<rceil>)"

text \<open>\<^verbatim>\<open>max(xs)\<close> of a sequence that is not empty.\<close>

fun py_max :: "rat list \<Rightarrow> rat" where
  "py_max [] = 0"
| "py_max (x # xs) = foldl max x xs"

section \<open>The program\<close>

text \<open>
  The functions below follow \<^verbatim>\<open>images_grid.py\<close> in the order of the calls. A leading
  underscore of a Python name is dropped, and a local variable \<^verbatim>\<open>image\<close> is written
  \<open>img\<close> or \<open>canvas\<close>. Every function takes the state and returns
  it; a function that can raise returns \<open>Inl\<close> of the error with the state at the
  raise. The two \<^verbatim>\<open>while\<close> loops of the annotation stage are guarded by an inequality
  and need not end, so everything that runs them returns an option, \<open>None\<close> standing
  for a call that does not return.
\<close>

text \<open>\<^verbatim>\<open>_paste_image_to_lower_left_corner(base, image)\<close>\<close>

definition paste_image_to_lower_left_corner :: "ref \<Rightarrow> ref \<Rightarrow> state \<Rightarrow> state" where
  "paste_image_to_lower_left_corner base img s =
     paste base img
       (fst (im_size (heap s ! base)) - fst (im_size (heap s ! img)),
        snd (im_size (heap s ! base)) - snd (im_size (heap s ! img))) s"

text \<open>
  \<^verbatim>\<open>_draw_center_text(draw, xy, text, fill="black")\<close>. The last two components of the
  bounding box are what the source names \<^verbatim>\<open>text_size\<close>; the two divisions are true
  divisions.
\<close>

definition draw_center_text ::
  "ImageDraw \<Rightarrow> int \<times> int \<times> int \<times> int \<Rightarrow> string \<Rightarrow> pixel \<Rightarrow> state \<Rightarrow> state" where
  "draw_center_text draw xy txt fill s =
     (case xy of (xy0, xy1, xy2, xy3) \<Rightarrow>
      case textbbox (draw_font draw) txt of (b0, b1, text_size0, text_size1) \<Rightarrow>
        draw_text draw
          (of_int (xy2 - text_size0 + xy0) / 2, of_int (xy3 - text_size1 + xy1) / 2)
          txt fill s)"

text \<open>
  \<^verbatim>\<open>_draw_text_by_xy(xy, index, draw, texts)\<close>: the \<^verbatim>\<open>IndexError\<close> of \<^verbatim>\<open>texts[index]\<close>
  is suppressed, and the next index is returned in both cases.
\<close>

definition draw_text_by_xy ::
  "int \<times> int \<times> int \<times> int \<Rightarrow> int \<Rightarrow> ImageDraw \<Rightarrow> string list \<Rightarrow> state \<Rightarrow> int \<times> state" where
  "draw_text_by_xy xy index draw texts s =
     (case py_index texts index of
        Inl e \<Rightarrow> (index + 1, s)
      | Inr txt \<Rightarrow> (index + 1, draw_center_text draw xy txt black s))"

text \<open>
  The \<^verbatim>\<open>while\<close> loop of \<^verbatim>\<open>_draw_column_text\<close>, over its local variables
  \<^verbatim>\<open>i, x0, y0, x1, y1\<close>. It returns the last value of \<^verbatim>\<open>i\<close>, which counts the
  iterations, with the state.
\<close>

partial_function (option) draw_column_loop ::
  "ImageDraw \<Rightarrow> string list \<Rightarrow> GridInfo \<Rightarrow> int \<Rightarrow> int \<Rightarrow> int \<Rightarrow> int \<Rightarrow> int \<Rightarrow> int \<Rightarrow> state
     \<Rightarrow> (int \<times> state) option" where
  "draw_column_loop draw texts grid_info left_padding i x0 y0 x1 y1 s =
     (if x0 \<noteq> fst (im_size (heap s ! gi_image grid_info)) + left_padding + gi_gap grid_info
      then (case draw_text_by_xy (x0, y0, x1, y1) i draw texts s of
              (i', s') \<Rightarrow>
                draw_column_loop draw texts grid_info left_padding i'
                  (x0 + (fst (gi_one_image_size grid_info) + gi_gap grid_info)) y0
                  (x1 + (fst (gi_one_image_size grid_info) + gi_gap grid_info)) y1 s')
      else Some (i, s))"

text \<open>\<^verbatim>\<open>_draw_column_text(draw, texts, grid_info, left_padding, top_padding)\<close>\<close>

definition draw_column_text ::
  "ImageDraw \<Rightarrow> string list \<Rightarrow> GridInfo \<Rightarrow> int \<Rightarrow> int \<Rightarrow> state \<Rightarrow> state option" where
  "draw_column_text draw texts grid_info left_padding top_padding s =
     map_option snd
       (draw_column_loop draw texts grid_info left_padding
          0 left_padding 0 (left_padding + fst (gi_one_image_size grid_info)) top_padding s)"

text \<open>The \<^verbatim>\<open>while\<close> loop of \<^verbatim>\<open>_draw_row_text\<close>.\<close>

partial_function (option) draw_row_loop ::
  "ImageDraw \<Rightarrow> string list \<Rightarrow> GridInfo \<Rightarrow> int \<Rightarrow> int \<Rightarrow> int \<Rightarrow> int \<Rightarrow> int \<Rightarrow> int \<Rightarrow> state
     \<Rightarrow> (int \<times> state) option" where
  "draw_row_loop draw texts grid_info top_padding i x0 y0 x1 y1 s =
     (if y0 \<noteq> snd (im_size (heap s ! gi_image grid_info)) + top_padding + gi_gap grid_info
      then (case draw_text_by_xy (x0, y0, x1, y1) i draw texts s of
              (i', s') \<Rightarrow>
                draw_row_loop draw texts grid_info top_padding i'
                  x0 (y0 + (snd (gi_one_image_size grid_info) + gi_gap grid_info))
                  x1 (y1 + (snd (gi_one_image_size grid_info) + gi_gap grid_info)) s')
      else Some (i, s))"

text \<open>\<^verbatim>\<open>_draw_row_text(draw, texts, grid_info, left_padding, top_padding)\<close>\<close>

definition draw_row_text ::
  "ImageDraw \<Rightarrow> string list \<Rightarrow> GridInfo \<Rightarrow> int \<Rightarrow> int \<Rightarrow> state \<Rightarrow> state option" where
  "draw_row_text draw texts grid_info left_padding top_padding s =
     map_option snd
       (draw_row_loop draw texts grid_info top_padding
          0 0 top_padding left_padding (top_padding + snd (gi_one_image_size grid_info)) s)"

text \<open>
  The local variables \<^verbatim>\<open>margin\<close>, \<^verbatim>\<open>left_padding\<close> and \<^verbatim>\<open>top_padding\<close> of
  \<^verbatim>\<open>_create_grid_annotations\<close>, as functions of the font and the row labels.
\<close>

definition margin_of :: "FreeTypeFont \<Rightarrow> py_num" where
  "margin_of fnt = py_floordiv2 (font_size fnt)"

definition left_padding_of :: "FreeTypeFont \<Rightarrow> string list \<Rightarrow> py_num" where
  "left_padding_of fnt rtexts =
     py_add (PyInt (py_int (py_max (map (getlength fnt) rtexts)))) (py_mul (PyInt 2) (margin_of fnt))"

definition top_padding_of :: "FreeTypeFont \<Rightarrow> py_num" where
  "top_padding_of fnt = py_add (font_size fnt) (py_mul (PyInt 2) (margin_of fnt))"

text \<open>
  \<^verbatim>\<open>_create_grid_annotations(grid_info, column_texts, row_texts, font)\<close>. The size
  given to \<^verbatim>\<open>Image.new\<close> is the integer size of the grid plus the two paddings, so it
  holds a \<^verbatim>\<open>float\<close> exactly when a padding is one, and then \<^verbatim>\<open>Image.new\<close> raises
  \<^verbatim>\<open>TypeError\<close>.
\<close>

definition create_grid_annotations ::
  "GridInfo \<Rightarrow> string list \<Rightarrow> string list \<Rightarrow> FreeTypeFont \<Rightarrow> state
     \<Rightarrow> ((error + ref) \<times> state) option" where
  "create_grid_annotations grid_info ctexts rtexts fnt s =
     (if ctexts = [] \<or> rtexts = [] then Some (Inl (ValueError ''Column text or row text is empty''), s)
      else
        let grid = gi_image grid_info
        in case (left_padding_of fnt rtexts, top_padding_of fnt) of
             (PyInt left_padding, PyInt top_padding) \<Rightarrow>
               (case Image_new (fst (im_size (heap s ! grid)) + left_padding,
                                snd (im_size (heap s ! grid)) + top_padding) white s of
                  (Inl e, s1) \<Rightarrow> Some (Inl e, s1)
                | (Inr canvas, s1) \<Rightarrow>
                    let draw = \<lparr>draw_image = canvas, draw_font = fnt\<rparr>;
                        s2 = paste_image_to_lower_left_corner canvas grid s1
                    in case draw_column_text draw ctexts grid_info left_padding top_padding s2 of
                         None \<Rightarrow> None
                       | Some s3 \<Rightarrow>
                           (case draw_row_text draw rtexts grid_info left_padding top_padding s3 of
                              None \<Rightarrow> None
                            | Some s4 \<Rightarrow> Some (Inr canvas, s4)))
           | _ \<Rightarrow> Some (Inl TypeError, s))"

text \<open>
  The \<^verbatim>\<open>for\<close> loop of \<^verbatim>\<open>_arrange_images_on_grid\<close> over \<^verbatim>\<open>enumerate(images)\<close>, from
  the index \<open>i\<close> on.
\<close>

fun arrange_loop ::
  "ref \<Rightarrow> int \<times> int \<Rightarrow> int \<Rightarrow> int \<Rightarrow> int \<Rightarrow> ref list \<Rightarrow> state \<Rightarrow> (error + unit) \<times> state" where
  "arrange_loop grid_image sz max_columns gap i [] s = (Inr (), s)"
| "arrange_loop grid_image sz max_columns gap i (img # rest) s =
     (case (if im_size (heap s ! img) \<noteq> sz then crop img (0, 0, fst sz, snd sz) s
            else (img, s)) of
        (img', s1) \<Rightarrow>
          if max_columns = 0 then (Inl ZeroDivisionError, s1)
          else arrange_loop grid_image sz max_columns gap (i + 1) rest
                 (paste grid_image img'
                    ((i mod max_columns) * (fst sz + gap), (i div max_columns) * (snd sz + gap)) s1))"

text \<open>\<^verbatim>\<open>_arrange_images_on_grid(grid_image, images, size, max_columns, gap)\<close>\<close>

definition arrange_images_on_grid ::
  "ref \<Rightarrow> ref list \<Rightarrow> int \<times> int \<Rightarrow> int \<Rightarrow> int \<Rightarrow> state \<Rightarrow> (error + unit) \<times> state" where
  "arrange_images_on_grid grid_image images sz max_columns gap s =
     arrange_loop grid_image sz max_columns gap 0 images s"

text \<open>\<^verbatim>\<open>_create_images_grid(images, gap, max_columns, max_rows, annotation)\<close>\<close>

definition create_images_grid ::
  "ref list \<Rightarrow> int \<Rightarrow> int \<Rightarrow> int \<Rightarrow> Annotation option \<Rightarrow> state
     \<Rightarrow> ((error + ref) \<times> state) option" where
  "create_images_grid images gap max_columns max_rows annotation s =
     (case images of
        [] \<Rightarrow> Some (Inl IndexError, s)
      | image0 # rest \<Rightarrow>
          let sz = im_size (heap s ! image0);
              grid_width = fst sz * max_columns + (max_columns - 1) * gap;
              grid_height = snd sz * max_rows + (max_rows - 1) * gap
          in case Image_new (grid_width, grid_height) white s of
               (Inl e, s1) \<Rightarrow> Some (Inl e, s1)
             | (Inr grid_image, s1) \<Rightarrow>
                 (case arrange_images_on_grid grid_image images sz max_columns gap s1 of
                    (Inl e, s2) \<Rightarrow> Some (Inl e, s2)
                  | (Inr u, s2) \<Rightarrow>
                      (case annotation of
                         None \<Rightarrow> Some (Inr grid_image, s2)
                       | Some a \<Rightarrow>
                           create_grid_annotations
                             \<lparr>gi_image = grid_image, gi_gap = gap, gi_one_image_size = sz\<rparr>
                             (column_texts a) (row_texts a) (font a) s2)))"

text \<open>\<^verbatim>\<open>create_images_grid_by_columns(images, gap, max_columns, annotation=None)\<close>\<close>

definition create_images_grid_by_columns ::
  "ref list \<Rightarrow> int \<Rightarrow> int \<Rightarrow> Annotation option \<Rightarrow> state \<Rightarrow> ((error + ref) \<times> state) option" where
  "create_images_grid_by_columns images gap max_columns annotation s =
     (if max_columns = 0 then Some (Inl ZeroDivisionError, s)
      else create_images_grid images gap max_columns
             ((int (length images) + max_columns - 1) div max_columns) annotation s)"

text \<open>\<^verbatim>\<open>create_images_grid_by_rows(images, gap, max_rows, annotation=None)\<close>\<close>

definition create_images_grid_by_rows ::
  "ref list \<Rightarrow> int \<Rightarrow> int \<Rightarrow> Annotation option \<Rightarrow> state \<Rightarrow> ((error + ref) \<times> state) option" where
  "create_images_grid_by_rows images gap max_rows annotation s =
     (if max_rows = 0 then Some (Inl ZeroDivisionError, s)
      else create_images_grid images gap
             ((int (length images) + max_rows - 1) div max_rows) max_rows annotation s)"

section \<open>Observations and test data\<close>

text \<open>The calls of a trace that paste.\<close>

fun is_paste :: "call \<Rightarrow> bool" where
  "is_paste (Paste dst src xy) = True"
| "is_paste c = False"

text \<open>
  The cell of the image at the linear index \<open>i\<close>: its pixel origin, the pixels it covers,
  and the pixel an image shows at the offset \<open>(u, v)\<close> of a cell, black where the image
  has none.
\<close>

definition tile_origin :: "int \<Rightarrow> int \<Rightarrow> int \<times> int \<Rightarrow> int \<Rightarrow> int \<times> int" where
  "tile_origin max_columns gap sz i =
     ((i mod max_columns) * (fst sz + gap), (i div max_columns) * (snd sz + gap))"

definition in_tile :: "int \<times> int \<Rightarrow> int \<times> int \<Rightarrow> int \<Rightarrow> int \<Rightarrow> bool" where
  "in_tile org sz x y \<longleftrightarrow>
     fst org \<le> x \<and> x < fst org + fst sz \<and> snd org \<le> y \<and> y < snd org + snd sz"

definition tile_px :: "Image \<Rightarrow> int \<Rightarrow> int \<Rightarrow> pixel" where
  "tile_px im u v = (if in_bounds im u v then im_px im u v else black)"

text \<open>
  The scenario of four tiles of 10 by 10 pixels: a store holding the four images at the
  references 0 to 3, no call made yet, and room for images of up to a million pixels.
\<close>

definition four_tiles :: state where
  "four_tiles =
     \<lparr>heap = replicate 4 \<lparr>im_size = (10, 10), im_px = (\<lambda>x y. RGB (nat x) (nat y) 7)\<rparr>,
      calls = [], allocable = (\<lambda>sz. fst sz * snd sz \<le> 1000000)\<rparr>"

text \<open>
  The loop the specification asks for in place of the two \<^verbatim>\<open>while\<close> loops: \<open>k\<close>
  bands are visited, each band being the one before shifted by \<open>(dx, dy)\<close>. It returns
  the index after the last band with the state.
\<close>

fun counted_bands ::
  "nat \<Rightarrow> int \<Rightarrow> int \<Rightarrow> ImageDraw \<Rightarrow> string list \<Rightarrow> int \<Rightarrow> int \<times> int \<times> int \<times> int \<Rightarrow> state
     \<Rightarrow> int \<times> state" where
  "counted_bands 0 dx dy draw texts i xy s = (i, s)"
| "counted_bands (Suc k) dx dy draw texts i (x0, y0, x1, y1) s =
     (case draw_text_by_xy (x0, y0, x1, y1) i draw texts s of
        (i', s') \<Rightarrow> counted_bands k dx dy draw texts i' (x0 + dx, y0 + dy, x1 + dx, y1 + dy) s')"

text \<open>
  The call a label makes when it is drawn in black, centred in the band \<open>(x0, y0, x1, y1)\<close>:
  the position is \<open>((x1 - w + x0) / 2, (y1 - h + y0) / 2)\<close> for the last two components
  \<open>w\<close> and \<open>h\<close> of the bounding box of the label.
\<close>

definition label_call :: "ImageDraw \<Rightarrow> int \<times> int \<times> int \<times> int \<Rightarrow> string \<Rightarrow> call" where
  "label_call draw xy txt =
     (case xy of (x0, y0, x1, y1) \<Rightarrow>
      case textbbox (draw_font draw) txt of (l, t, w, h) \<Rightarrow>
        Text (draw_image draw) (of_int (x1 - w + x0) / 2, of_int (y1 - h + y0) / 2) txt black)"

text \<open>
  A font of size 10 for the examples: each character advances by 6.25 pixels, the bounding
  box of a text at the origin is 6 pixels per character wide and ends at height 9, and
  the rasteriser fills that box.
\<close>

definition test_font :: FreeTypeFont where
  "test_font =
     \<lparr>font_size = PyInt 10,
      getlength = (\<lambda>t. of_nat (length t) * (25 / 4)),
      textbbox = (\<lambda>t. (0, 2, 6 * int (length t), 9)),
      render = (\<lambda>pos t fill px x y.
                  if fst pos \<le> of_int x \<and> of_int x < fst pos + of_int (6 * int (length t)) \<and>
                     snd pos \<le> of_int y \<and> of_int y < snd pos + 9
                  then fill else px x y)\<rparr>"

text \<open>
  A grid of 2 by 2 tiles of 10 by 10 pixels with gap 2 at the reference 0, and a canvas
  at the reference 1.
\<close>

definition grid_2x2 :: state where
  "grid_2x2 = \<lparr>heap = [\<lparr>im_size = (22, 22), im_px = (\<lambda>x y. RGB (nat x) (nat y) 0)\<rparr>,
                         \<lparr>im_size = (44, 42), im_px = (\<lambda>x y. white)\<rparr>], calls = [],
                 allocable = (\<lambda>sz. fst sz * snd sz \<le> 1000000)\<rparr>"

definition info_2x2 :: GridInfo where
  "info_2x2 = \<lparr>gi_image = 0, gi_gap = 2, gi_one_image_size = (10, 10)\<rparr>"

text \<open>Two annotations with the font of the examples: one without column labels, one complete.\<close>

definition no_labels :: Annotation where
  "no_labels = \<lparr>column_texts = [], row_texts = [''a''], font = test_font\<rparr>"

definition two_labels :: Annotation where
  "two_labels = \<lparr>column_texts = [''a'', ''b''], row_texts = [''ab'', ''c''], font = test_font\<rparr>"

text \<open>
  The sizes \<^verbatim>\<open>Image.new\<close> accepts in a state: no negative dimension, none beyond a C
  \<^verbatim>\<open>int\<close>, and a size the library can allocate.
\<close>

definition Image_new_accepts :: "state \<Rightarrow> int \<times> int \<Rightarrow> bool" where
  "Image_new_accepts s sz \<longleftrightarrow>
     0 \<le> fst sz \<and> 0 \<le> snd sz \<and> fst sz \<le> 2147483647 \<and> snd sz \<le> 2147483647 \<and> allocable s sz"

text \<open>
  A call leaves the grid region of an annotated canvas alone when it is not a text call,
  or when the rasteriser, for this text at this position, changes no pixel at or beyond
  the column \<open>lp\<close> and the row \<open>tp\<close>.
\<close>

fun clear_of_grid :: "FreeTypeFont \<Rightarrow> int \<Rightarrow> int \<Rightarrow> call \<Rightarrow> bool" where
  "clear_of_grid fnt lp tp (Text r pos txt fill) =
     (\<forall>px x y. lp \<le> x \<and> tp \<le> y \<longrightarrow> render fnt pos txt fill px x y = px x y)"
| "clear_of_grid fnt lp tp c = True"

text \<open>What a call of the program returned: the size and the pixels of the image.\<close>

definition returned_size :: "((error + ref) \<times> state) option \<Rightarrow> (int \<times> int) option" where
  "returned_size r = (case r of Some (Inr c, s') \<Rightarrow> Some (im_size (heap s' ! c)) | _ \<Rightarrow> None)"

definition returned_px :: "((error + ref) \<times> state) option \<Rightarrow> int \<Rightarrow> int \<Rightarrow> pixel option" where
  "returned_px r x y = (case r of Some (Inr c, s') \<Rightarrow> Some (im_px (heap s' ! c) x y) | _ \<Rightarrow> None)"

text \<open>
  A font of size 10 whose labels have a bounding box 50 pixels high, as a label of four
  lines has; the rasteriser fills the box.
\<close>

definition tall_font :: FreeTypeFont where
  "tall_font =
     \<lparr>font_size = PyInt 10,
      getlength = (\<lambda>t. of_nat (length t) * (25 / 4)),
      textbbox = (\<lambda>t. (0, 0, 6 * int (length t), 50)),
      render = (\<lambda>pos t fill px x y.
                  if fst pos \<le> of_int x \<and> of_int x < fst pos + of_int (6 * int (length t)) \<and>
                     snd pos \<le> of_int y \<and> of_int y < snd pos + 50
                  then fill else px x y)\<rparr>"

text \<open>
  Two input images of different sizes, 10 by 10 at the reference 0 and 4 by 4 at the
  reference 1, and a white canvas of 22 by 10 pixels at the reference 2.
\<close>

definition two_sizes :: state where
  "two_sizes =
     \<lparr>heap = [\<lparr>im_size = (10, 10), im_px = (\<lambda>x y. RGB 200 0 0)\<rparr>,
              \<lparr>im_size = (4, 4), im_px = (\<lambda>x y. RGB 0 200 0)\<rparr>,
              \<lparr>im_size = (22, 10), im_px = (\<lambda>x y. white)\<rparr>],
      calls = [], allocable = (\<lambda>sz. fst sz * snd sz \<le> 1000000)\<rparr>"

section \<open>The image library: store, sizes and trace\<close>

lemma size_paste [simp]: "im_size (heap (paste d c xy s) ! r) = im_size (heap s ! r)"
  by (cases "d < length (heap s)") (auto simp: paste_def nth_list_update list_update_beyond)

lemma length_paste [simp]: "length (heap (paste d c xy s)) = length (heap s)"
  by (simp add: paste_def)

lemma calls_paste [simp]: "calls (paste d c xy s) = calls s @ [Paste d c xy]"
  by (simp add: paste_def)

lemma frame_paste: "r \<noteq> d \<Longrightarrow> heap (paste d c xy s) ! r = heap s ! r"
  by (simp add: paste_def)

lemma size_draw_text [simp]: "im_size (heap (draw_text dr pos t f s) ! r) = im_size (heap s ! r)"
  by (cases "draw_image dr < length (heap s)") (auto simp: draw_text_def nth_list_update list_update_beyond)

lemma length_draw_text [simp]: "length (heap (draw_text dr pos t f s)) = length (heap s)"
  by (simp add: draw_text_def)

lemma calls_draw_text [simp]: "calls (draw_text dr pos t f s) = calls s @ [Text (draw_image dr) pos t f]"
  by (simp add: draw_text_def)

lemma frame_draw_text: "r \<noteq> draw_image dr \<Longrightarrow> heap (draw_text dr pos t f s) ! r = heap s ! r"
  by (simp add: draw_text_def)

lemma fst_crop [simp]: "fst (crop r box s) = length (heap s)"
  by (simp add: crop_def split: prod.splits)

lemma length_crop [simp]: "length (heap (snd (crop r box s))) = Suc (length (heap s))"
  by (simp add: crop_def split: prod.splits)

lemma frame_crop: "q < length (heap s) \<Longrightarrow> heap (snd (crop r box s)) ! q = heap s ! q"
  by (simp add: crop_def nth_append split: prod.splits)

lemma calls_crop [simp]: "calls (snd (crop r box s)) = calls s @ [Crop r box (length (heap s))]"
  by (simp add: crop_def split: prod.splits)

lemma size_new_crop: "im_size (heap (snd (crop r (0, 0, w, h) s)) ! length (heap s)) = (w, h)"
  by (simp add: crop_def)

lemma px_new_crop: "im_px (heap (snd (crop r (0, 0, w, h) s)) ! length (heap s)) x y =
   (if in_bounds (heap s ! r) x y then im_px (heap s ! r) x y else black)"
  by (simp add: crop_def)

lemma new_ok:
  "0 \<le> fst sz \<Longrightarrow> 0 \<le> snd sz \<Longrightarrow> fst sz \<le> 2147483647 \<Longrightarrow> snd sz \<le> 2147483647 \<Longrightarrow>
   allocable s sz \<Longrightarrow>
   Image_new sz c s =
   (Inr (length (heap s)), s\<lparr>heap := heap s @ [\<lparr>im_size = sz, im_px = (\<lambda>x y. c)\<rparr>],
              calls := calls s @ [New (length (heap s)) sz c]\<rparr>)"
  by (simp add: Image_new_def)


section \<open>The tile loop\<close>

text \<open>One iteration of the loop, for an image of the tile size and for any other.\<close>

lemma arrange_loop_same:
  "im_size (heap s ! a) = sz \<Longrightarrow> arrange_loop g sz mc gap i (a # imgs) s =
     (if mc = 0 then (Inl ZeroDivisionError, s)
      else arrange_loop g sz mc gap (i + 1) imgs
             (paste g a ((i mod mc) * (fst sz + gap), (i div mc) * (snd sz + gap)) s))"
  by simp

lemma arrange_loop_crop:
  "im_size (heap s ! a) \<noteq> sz \<Longrightarrow> arrange_loop g sz mc gap i (a # imgs) s =
     (if mc = 0 then (Inl ZeroDivisionError, snd (crop a (0, 0, fst sz, snd sz) s))
      else arrange_loop g sz mc gap (i + 1) imgs
             (paste g (length (heap s)) ((i mod mc) * (fst sz + gap), (i div mc) * (snd sz + gap))
                (snd (crop a (0, 0, fst sz, snd sz) s))))"
  by (simp add: crop_def)

declare arrange_loop.simps(2) [simp del]

lemma arrange_loop_ok: "mc \<noteq> 0 \<Longrightarrow> fst (arrange_loop g sz mc gap i imgs s) = Inr ()"
proof (induction imgs arbitrary: i s)
  case Nil
  show ?case by simp
next
  case (Cons a imgs)
  then show ?case
    by (cases "im_size (heap s ! a) = sz") (simp_all add: arrange_loop_same arrange_loop_crop)
qed

lemma arrange_loop_length: "length (heap s) \<le> length (heap (snd (arrange_loop g sz mc gap i imgs s)))"
proof (induction imgs arbitrary: i s)
  case Nil
  show ?case by simp
next
  case (Cons a imgs)
  show ?case
  proof (cases "im_size (heap s ! a) = sz")
    case False
    then show ?thesis
      using Cons [of "paste g (length (heap s)) ((i mod mc) * (fst sz + gap), (i div mc) * (snd sz + gap)) (snd (crop a (0, 0, fst sz, snd sz) s))" "i + 1"]
      by (simp add: arrange_loop_crop)
  next
    case True
    then show ?thesis
      using Cons [of "paste g a ((i mod mc) * (fst sz + gap), (i div mc) * (snd sz + gap)) s" "i + 1"]
      by (simp add: arrange_loop_same)
  qed
qed

lemma arrange_loop_frame:
  "r < length (heap s) \<Longrightarrow> r \<noteq> g \<Longrightarrow> heap (snd (arrange_loop g sz mc gap i imgs s)) ! r = heap s ! r"
proof (induction imgs arbitrary: i s)
  case Nil
  show ?case by simp
next
  case (Cons a imgs)
  show ?case
  proof (cases "im_size (heap s ! a) = sz")
    case False
    then show ?thesis
      using Cons.prems Cons.IH [of "paste g (length (heap s)) ((i mod mc) * (fst sz + gap), (i div mc) * (snd sz + gap)) (snd (crop a (0, 0, fst sz, snd sz) s))" "i + 1"]
      by (simp add: arrange_loop_crop frame_crop frame_paste)
  next
    case True
    then show ?thesis
      using Cons.prems Cons.IH [of "paste g a ((i mod mc) * (fst sz + gap), (i div mc) * (snd sz + gap)) s" "i + 1"]
      by (simp add: arrange_loop_same frame_paste)
  qed
qed

lemma arrange_loop_size:
  "r < length (heap s) \<Longrightarrow> im_size (heap (snd (arrange_loop g sz mc gap i imgs s)) ! r) = im_size (heap s ! r)"
proof (induction imgs arbitrary: i s)
  case Nil
  show ?case by simp
next
  case (Cons a imgs)
  show ?case
  proof (cases "im_size (heap s ! a) = sz")
    case False
    then show ?thesis
      using Cons.prems Cons.IH [of "paste g (length (heap s)) ((i mod mc) * (fst sz + gap), (i div mc) * (snd sz + gap)) (snd (crop a (0, 0, fst sz, snd sz) s))" "i + 1"]
      by (simp add: arrange_loop_crop frame_crop)
  next
    case True
    then show ?thesis
      using Cons.prems Cons.IH [of "paste g a ((i mod mc) * (fst sz + gap), (i div mc) * (snd sz + gap)) s" "i + 1"]
      by (simp add: arrange_loop_same)
  qed
qed

section \<open>The size of the grid\<close>


text \<open>
  The grid stage without annotation, when \<^verbatim>\<open>Image.new\<close> accepts the size of the canvas:
  the state it returns, and the size of the canvas.
\<close>

lemma create_images_grid_plain:
  assumes "images \<noteq> []" and "mc \<noteq> 0"
    and "0 \<le> fst (im_size (heap s ! hd images)) * mc + (mc - 1) * gap"
    and "0 \<le> snd (im_size (heap s ! hd images)) * mr + (mr - 1) * gap"
    and "fst (im_size (heap s ! hd images)) * mc + (mc - 1) * gap \<le> 2147483647"
    and "snd (im_size (heap s ! hd images)) * mr + (mr - 1) * gap \<le> 2147483647"
    and "allocable s (fst (im_size (heap s ! hd images)) * mc + (mc - 1) * gap,
                      snd (im_size (heap s ! hd images)) * mr + (mr - 1) * gap)"
  shows "create_images_grid images gap mc mr None s =
           Some (Inr (length (heap s)),
             snd (arrange_loop (length (heap s)) (im_size (heap s ! hd images)) mc gap 0 images
               (snd (Image_new (fst (im_size (heap s ! hd images)) * mc + (mc - 1) * gap,
                                snd (im_size (heap s ! hd images)) * mr + (mr - 1) * gap) white s)))) \<and>
     im_size (heap (snd (arrange_loop (length (heap s)) (im_size (heap s ! hd images)) mc gap 0 images
               (snd (Image_new (fst (im_size (heap s ! hd images)) * mc + (mc - 1) * gap,
                                snd (im_size (heap s ! hd images)) * mr + (mr - 1) * gap) white s))))
              ! length (heap s)) =
       (fst (im_size (heap s ! hd images)) * mc + (mc - 1) * gap,
        snd (im_size (heap s ! hd images)) * mr + (mr - 1) * gap)"
proof -
  obtain a rest where im: "images = a # rest" using assms(1) by (cases images) auto
  define sz where "sz = im_size (heap s ! a)"
  define gw where "gw = fst sz * mc + (mc - 1) * gap"
  define gh where "gh = snd sz * mr + (mr - 1) * gap"
  define s1 where "s1 = s\<lparr>heap := heap s @ [\<lparr>im_size = (gw, gh), im_px = (\<lambda>x y. white)\<rparr>],
              calls := calls s @ [New (length (heap s)) (gw, gh) white]\<rparr>"
  have new: "Image_new (gw, gh) white s = (Inr (length (heap s)), s1)"
    using assms(3-7) by (simp add: new_ok im sz_def gw_def gh_def s1_def)
  obtain r s2 where ar: "arrange_loop (length (heap s)) sz mc gap 0 images s1 = (r, s2)"
    by (cases "arrange_loop (length (heap s)) sz mc gap 0 images s1") auto
  have r: "r = Inr ()" using arrange_loop_ok [OF assms(2), of "length (heap s)" sz gap 0 images s1] ar by simp
  have "im_size (heap s2 ! length (heap s)) = im_size (heap s1 ! length (heap s))"
    using arrange_loop_size [of "length (heap s)" s1 "length (heap s)" sz mc gap 0 images] ar
    by (simp add: s1_def)
  then have sz2: "im_size (heap s2 ! length (heap s)) = (gw, gh)" by (simp add: s1_def)
  have "create_images_grid images gap mc mr None s = Some (Inr (length (heap s)), s2)"
    using new ar r
    by (simp add: create_images_grid_def im arrange_images_on_grid_def sz_def [symmetric] gw_def [symmetric] gh_def [symmetric] Let_def)
  then show ?thesis
    using sz2 new ar
    by (simp add: im sz_def [symmetric] gw_def [symmetric] gh_def [symmetric])
qed


lemma four_tiles_simps [simp]:
  "length (heap four_tiles) = 4" "calls four_tiles = []"
  "r < 4 \<Longrightarrow> heap four_tiles ! r = \<lparr>im_size = (10, 10), im_px = (\<lambda>x y. RGB (nat x) (nat y) 7)\<rparr>"
  "allocable four_tiles sz \<longleftrightarrow> fst sz * snd sz \<le> 1000000"
  by (simp_all add: four_tiles_def)




section \<open>Where the tiles are pasted\<close>

lemma arrange_loop_pastes:
  assumes "mc \<noteq> 0"
  shows "\<exists>cs. calls (snd (arrange_loop g sz mc gap i imgs s)) = calls s @ cs \<and>
           length (filter is_paste cs) = length imgs \<and>
           (\<forall>k<length imgs. \<exists>src.
              filter is_paste cs ! k =
                Paste g src (((i + int k) mod mc) * (fst sz + gap), ((i + int k) div mc) * (snd sz + gap)) \<and>
              (src = imgs ! k \<or> Crop (imgs ! k) (0, 0, fst sz, snd sz) src \<in> set cs))"
proof (induction imgs arbitrary: i s)
  case Nil
  show ?case by simp
next
  case (Cons a imgs)
  define xy where "xy = ((i mod mc) * (fst sz + gap), (i div mc) * (snd sz + gap))"
  define a' where "a' = (if im_size (heap s ! a) = sz then a else length (heap s))"
  define s1 where "s1 = (if im_size (heap s ! a) = sz then s else snd (crop a (0, 0, fst sz, snd sz) s))"
  define pre where "pre = (if im_size (heap s ! a) = sz then [] else [Crop a (0, 0, fst sz, snd sz) a'])"
  have step: "arrange_loop g sz mc gap i (a # imgs) s = arrange_loop g sz mc gap (i + 1) imgs (paste g a' xy s1)"
    using assms by (simp add: arrange_loop_same arrange_loop_crop a'_def s1_def xy_def)
  have c1: "calls (paste g a' xy s1) = calls s @ pre @ [Paste g a' xy]"
    by (simp add: s1_def pre_def a'_def)
  from Cons [of "i + 1" "paste g a' xy s1"] obtain cs where
    cs: "calls (snd (arrange_loop g sz mc gap (i + 1) imgs (paste g a' xy s1))) = calls (paste g a' xy s1) @ cs"
      "length (filter is_paste cs) = length imgs"
      "\<forall>k<length imgs. \<exists>src.
              filter is_paste cs ! k =
                Paste g src (((i + 1 + int k) mod mc) * (fst sz + gap), ((i + 1 + int k) div mc) * (snd sz + gap)) \<and>
              (src = imgs ! k \<or> Crop (imgs ! k) (0, 0, fst sz, snd sz) src \<in> set cs)"
    by blast
  let ?cs = "pre @ [Paste g a' xy] @ cs"
  have f: "filter is_paste ?cs = Paste g a' xy # filter is_paste cs"
    by (simp add: pre_def)
  have "calls (snd (arrange_loop g sz mc gap i (a # imgs) s)) = calls s @ ?cs"
    using step cs(1) c1 by simp
  moreover have "length (filter is_paste ?cs) = length (a # imgs)"
    using f cs(2) by simp
  moreover have "\<forall>k<length (a # imgs). \<exists>src.
              filter is_paste ?cs ! k =
                Paste g src (((i + int k) mod mc) * (fst sz + gap), ((i + int k) div mc) * (snd sz + gap)) \<and>
              (src = (a # imgs) ! k \<or> Crop ((a # imgs) ! k) (0, 0, fst sz, snd sz) src \<in> set ?cs)"
  proof (intro allI impI)
    fix k assume k: "k < length (a # imgs)"
    show "\<exists>src. filter is_paste ?cs ! k =
                Paste g src (((i + int k) mod mc) * (fst sz + gap), ((i + int k) div mc) * (snd sz + gap)) \<and>
              (src = (a # imgs) ! k \<or> Crop ((a # imgs) ! k) (0, 0, fst sz, snd sz) src \<in> set ?cs)"
    proof (cases k)
      case 0
      have "filter is_paste ?cs ! 0 = Paste g a' xy" using f by simp
      moreover have "a' = a \<or> Crop a (0, 0, fst sz, snd sz) a' \<in> set ?cs"
        by (simp add: pre_def a'_def)
      ultimately show ?thesis using 0 by (auto simp: xy_def)
    next
      case (Suc k')
      then have "k' < length imgs" using k by simp
      with cs(3) obtain src where
        src: "filter is_paste cs ! k' =
                Paste g src (((i + 1 + int k') mod mc) * (fst sz + gap), ((i + 1 + int k') div mc) * (snd sz + gap))"
          "src = imgs ! k' \<or> Crop (imgs ! k') (0, 0, fst sz, snd sz) src \<in> set cs"
        by blast
      have e: "i + 1 + int k' = i + int k" using Suc by simp
      have "filter is_paste ?cs ! k = filter is_paste cs ! k'" using f Suc by simp
      then show ?thesis using src Suc unfolding e by auto
    qed
  qed
  ultimately show ?case by blast
qed

section \<open>What the tile loop paints on the canvas\<close>

lemma band_disjoint:
  fixes a b d g x :: int
  assumes "0 \<le> d" and "0 \<le> g" and "a \<noteq> b"
  shows "\<not> (a * (d + g) \<le> x \<and> x < a * (d + g) + d \<and> b * (d + g) \<le> x \<and> x < b * (d + g) + d)"
proof -
  have le: "p * (d + g) + d \<le> q * (d + g)" if "p < q" for p q :: int
  proof -
    have "(p + 1) * (d + g) \<le> q * (d + g)"
      using that assms(1,2) by (intro mult_right_mono) auto
    then show ?thesis using assms(2) by (simp add: algebra_simps)
  qed
  show ?thesis
  proof (cases "a < b")
    case True
    from le [OF this] show ?thesis by linarith
  next
    case False
    then have "b < a" using assms(3) by simp
    from le [OF this] show ?thesis by linarith
  qed
qed

lemma tiles_disjoint:
  assumes "1 \<le> mc" and "0 \<le> gap" and "0 \<le> fst sz" and "0 \<le> snd sz" and "j \<noteq> j'"
  shows "\<not> (in_tile (tile_origin mc gap sz j) sz x y \<and> in_tile (tile_origin mc gap sz j') sz x y)"
proof (cases "j div mc = j' div mc")
  case True
  have "j mod mc \<noteq> j' mod mc"
  proof
    assume "j mod mc = j' mod mc"
    then have "j = j'" using True by (metis div_mult_mod_eq)
    then show False using assms(5) by simp
  qed
  from band_disjoint [OF assms(3,2) this, of x] show ?thesis
    by (auto simp: in_tile_def tile_origin_def)
next
  case False
  from band_disjoint [OF assms(4,2) this, of y] show ?thesis
    by (auto simp: in_tile_def tile_origin_def)
qed

lemma arrange_loop_pixels:
  assumes "1 \<le> mc" and "0 \<le> gap" and "0 \<le> fst sz" and "0 \<le> snd sz"
  shows "\<forall>r \<in> set imgs. r < length (heap s) \<Longrightarrow> g < length (heap s) \<Longrightarrow> g \<notin> set imgs \<Longrightarrow>
    (\<forall>x y. (\<forall>k<length imgs. \<not> in_tile (tile_origin mc gap sz (i + int k)) sz x y) \<longrightarrow>
       im_px (heap (snd (arrange_loop g sz mc gap i imgs s)) ! g) x y = im_px (heap s ! g) x y) \<and>
    (\<forall>k<length imgs. \<forall>x y. in_tile (tile_origin mc gap sz (i + int k)) sz x y \<longrightarrow>
       im_px (heap (snd (arrange_loop g sz mc gap i imgs s)) ! g) x y =
         tile_px (heap s ! (imgs ! k)) (x - fst (tile_origin mc gap sz (i + int k)))
           (y - snd (tile_origin mc gap sz (i + int k))))"
proof (induction imgs arbitrary: i s)
  case Nil
  show ?case by simp
next
  case (Cons a imgs)
  define xy where "xy = tile_origin mc gap sz i"
  define a' where "a' = (if im_size (heap s ! a) = sz then a else length (heap s))"
  define s1 where "s1 = (if im_size (heap s ! a) = sz then s else snd (crop a (0, 0, fst sz, snd sz) s))"
  define sn where "sn = paste g a' xy s1"
  define S where "S = snd (arrange_loop g sz mc gap (i + 1) imgs sn)"
  have mc0: "mc \<noteq> 0" using assms(1) by simp
  have step: "snd (arrange_loop g sz mc gap i (a # imgs) s) = S"
    using mc0
    by (simp add: arrange_loop_same arrange_loop_crop a'_def s1_def xy_def tile_origin_def sn_def S_def)
  have ag: "a < length (heap s)" "a \<noteq> g" using Cons.prems by auto
  have ln: "length (heap s) \<le> length (heap sn)" by (simp add: sn_def s1_def)
  have old: "heap sn ! r = heap s ! r" if "r < length (heap s)" "r \<noteq> g" for r
    using that by (simp add: sn_def s1_def frame_paste frame_crop)
  have g1: "g < length (heap s1)" "heap s1 ! g = heap s ! g"
    using Cons.prems(2) by (simp_all add: s1_def frame_crop)
  have src: "im_size (heap s1 ! a') = sz \<and>
      (\<forall>u v. in_bounds (heap s1 ! a') u v \<longrightarrow> im_px (heap s1 ! a') u v = tile_px (heap s ! a) u v)"
  proof (cases "im_size (heap s ! a) = sz")
    case True
    then show ?thesis by (simp add: a'_def s1_def tile_px_def)
  next
    case False
    then show ?thesis
      using size_new_crop [of a "fst sz" "snd sz" s] px_new_crop [of a "fst sz" "snd sz" s]
      by (simp add: a'_def s1_def tile_px_def)
  qed
  have P: "im_px (heap sn ! g) x y =
      (if in_tile xy sz x y then tile_px (heap s ! a) (x - fst xy) (y - snd xy)
       else im_px (heap s ! g) x y)" for x y
  proof -
    have ib: "in_bounds (heap s1 ! a') (x - fst xy) (y - snd xy) \<longleftrightarrow> in_tile xy sz x y"
      using src by (auto simp: in_bounds_def in_tile_def)
    show ?thesis
      using g1 src ib by (simp add: sn_def paste_def)
  qed
  have v: "\<forall>r \<in> set imgs. r < length (heap sn)" "g < length (heap sn)" "g \<notin> set imgs"
    using Cons.prems ln by auto
  from Cons.IH [OF v, of "i + 1"] have
    A: "\<And>x y. (\<forall>k<length imgs. \<not> in_tile (tile_origin mc gap sz (i + 1 + int k)) sz x y) \<Longrightarrow>
          im_px (heap S ! g) x y = im_px (heap sn ! g) x y"
    and B: "\<And>k x y. k < length imgs \<Longrightarrow> in_tile (tile_origin mc gap sz (i + 1 + int k)) sz x y \<Longrightarrow>
          im_px (heap S ! g) x y =
            tile_px (heap sn ! (imgs ! k)) (x - fst (tile_origin mc gap sz (i + 1 + int k)))
              (y - snd (tile_origin mc gap sz (i + 1 + int k)))"
    unfolding S_def by blast+
  have first: "im_px (heap S ! g) x y = tile_px (heap s ! a) (x - fst xy) (y - snd xy)"
    if t: "in_tile xy sz x y" for x y
  proof -
    have "\<not> in_tile (tile_origin mc gap sz (i + 1 + int k)) sz x y" for k
      using tiles_disjoint [OF assms, of i "i + 1 + int k" x y] t by (auto simp: xy_def)
    then have "im_px (heap S ! g) x y = im_px (heap sn ! g) x y" by (intro A) simp
    then show ?thesis using P t by simp
  qed
  have rest: "im_px (heap S ! g) x y =
      tile_px (heap s ! (imgs ! k)) (x - fst (tile_origin mc gap sz (i + 1 + int k)))
        (y - snd (tile_origin mc gap sz (i + 1 + int k)))"
    if k: "k < length imgs" and t: "in_tile (tile_origin mc gap sz (i + 1 + int k)) sz x y" for k x y
  proof -
    have "imgs ! k \<in> set imgs" using k by simp
    then have "imgs ! k < length (heap s)" "imgs ! k \<noteq> g" using Cons.prems by auto
    then have "heap sn ! (imgs ! k) = heap s ! (imgs ! k)" by (rule old)
    then show ?thesis using B [OF k t] by simp
  qed
  have out: "im_px (heap S ! g) x y = im_px (heap s ! g) x y"
    if o: "\<forall>k<length (a # imgs). \<not> in_tile (tile_origin mc gap sz (i + int k)) sz x y" for x y
  proof -
    have o0: "\<not> in_tile xy sz x y" using o [rule_format, of 0] by (simp add: xy_def)
    have "\<not> in_tile (tile_origin mc gap sz (i + 1 + int k)) sz x y" if "k < length imgs" for k
      using o [rule_format, of "Suc k"] that by (simp add: add.assoc)
    then have "im_px (heap S ! g) x y = im_px (heap sn ! g) x y" by (intro A) simp
    then show ?thesis using P o0 by simp
  qed
  have tiles: "im_px (heap S ! g) x y =
      tile_px (heap s ! ((a # imgs) ! k)) (x - fst (tile_origin mc gap sz (i + int k)))
        (y - snd (tile_origin mc gap sz (i + int k)))"
    if k: "k < length (a # imgs)" and t: "in_tile (tile_origin mc gap sz (i + int k)) sz x y" for k x y
  proof (cases k)
    case 0
    then show ?thesis using first [of x y] t by (simp add: xy_def)
  next
    case (Suc k')
    then have e: "i + int k = i + 1 + int k'" by simp
    show ?thesis using rest [of k' x y] k t Suc unfolding e by simp
  qed
  show ?case unfolding step using out tiles by blast
qed

text \<open>
  C2. The loop pastes once per image, in the order of the images: the paste of the image
  at index \<open>i\<close> (the image itself, or its crop) goes to the grid at
  \<open>x = (i mod max_columns) * (tileWidth + gap)\<close>,
  \<open>y = (i div max_columns) * (tileHeight + gap)\<close>. With at least one column and a gap that
  is not negative the cells do not overlap, so after the loop the canvas shows, in the
  cell of each index \<open>i\<close>, the pixels of image \<open>i\<close> (black where the image has none), and
  outside the cells what it showed before. Four images of 10 by 10 pixels with gap 2
  and two columns give a canvas of 22 by 22 pixels that holds the four images at
  \<open>(0, 0)\<close>, \<open>(12, 0)\<close>, \<open>(0, 12)\<close>, \<open>(12, 12)\<close> and is white between them.
\<close>

theorem tile_origins:
  "(max_columns \<noteq> 0 \<longrightarrow>
      (\<exists>cs. calls (snd (arrange_images_on_grid grid_image images (tileWidth, tileHeight) max_columns gap s))
               = calls s @ cs \<and>
            length (filter is_paste cs) = length images \<and>
            (\<forall>i<length images. \<exists>src.
               filter is_paste cs ! i =
                 Paste grid_image src
                   ((int i mod max_columns) * (tileWidth + gap), (int i div max_columns) * (tileHeight + gap)) \<and>
               (src = images ! i \<or> Crop (images ! i) (0, 0, tileWidth, tileHeight) src \<in> set cs)))) \<and>
   (1 \<le> max_columns \<and> 0 \<le> gap \<and> 0 \<le> tileWidth \<and> 0 \<le> tileHeight \<and>
    (\<forall>r \<in> set images. r < length (heap s)) \<and> grid_image < length (heap s) \<and>
    grid_image \<notin> set images \<longrightarrow>
      (\<forall>i<length images. \<forall>u v. 0 \<le> u \<and> u < tileWidth \<and> 0 \<le> v \<and> v < tileHeight \<longrightarrow>
         im_px (heap (snd (arrange_images_on_grid grid_image images (tileWidth, tileHeight) max_columns gap s))
                  ! grid_image)
           ((int i mod max_columns) * (tileWidth + gap) + u)
           ((int i div max_columns) * (tileHeight + gap) + v)
         = (if in_bounds (heap s ! (images ! i)) u v then im_px (heap s ! (images ! i)) u v else black)) \<and>
      (\<forall>x y. (\<forall>i<length images.
                 \<not> ((int i mod max_columns) * (tileWidth + gap) \<le> x \<and>
                    x < (int i mod max_columns) * (tileWidth + gap) + tileWidth \<and>
                    (int i div max_columns) * (tileHeight + gap) \<le> y \<and>
                    y < (int i div max_columns) * (tileHeight + gap) + tileHeight)) \<longrightarrow>
         im_px (heap (snd (arrange_images_on_grid grid_image images (tileWidth, tileHeight) max_columns gap s))
                  ! grid_image) x y
         = im_px (heap s ! grid_image) x y)) \<and>
   ((\<forall>r \<in> set [a, b, c, d]. r < length (heap s) \<and> im_size (heap s ! r) = (10, 10)) \<and>
    allocable s (22, 22) \<longrightarrow>
      (\<exists>s'. create_images_grid_by_columns [a, b, c, d] 2 2 None s = Some (Inr (length (heap s)), s') \<and>
            im_size (heap s' ! length (heap s)) = (22, 22) \<and>
            calls s' = calls s @
              [New (length (heap s)) (22, 22) white,
               Paste (length (heap s)) a (0, 0), Paste (length (heap s)) b (12, 0),
               Paste (length (heap s)) c (0, 12), Paste (length (heap s)) d (12, 12)] \<and>
            (\<forall>u v. 0 \<le> u \<and> u < 10 \<and> 0 \<le> v \<and> v < 10 \<longrightarrow>
               im_px (heap s' ! length (heap s)) u v = im_px (heap s ! a) u v \<and>
               im_px (heap s' ! length (heap s)) (12 + u) v = im_px (heap s ! b) u v \<and>
               im_px (heap s' ! length (heap s)) u (12 + v) = im_px (heap s ! c) u v \<and>
               im_px (heap s' ! length (heap s)) (12 + u) (12 + v) = im_px (heap s ! d) u v) \<and>
            (\<forall>x y. (10 \<le> x \<and> x < 12) \<or> (10 \<le> y \<and> y < 12) \<longrightarrow>
               im_px (heap s' ! length (heap s)) x y = white)))"
proof (intro conjI impI)
  assume "max_columns \<noteq> 0"
  from arrange_loop_pastes [OF this, of grid_image "(tileWidth, tileHeight)" gap 0 images s]
  show "\<exists>cs. calls (snd (arrange_images_on_grid grid_image images (tileWidth, tileHeight) max_columns gap s))
               = calls s @ cs \<and>
            length (filter is_paste cs) = length images \<and>
            (\<forall>i<length images. \<exists>src.
               filter is_paste cs ! i =
                 Paste grid_image src
                   ((int i mod max_columns) * (tileWidth + gap), (int i div max_columns) * (tileHeight + gap)) \<and>
               (src = images ! i \<or> Crop (images ! i) (0, 0, tileWidth, tileHeight) src \<in> set cs))"
    by (simp add: arrange_images_on_grid_def)
next
  assume h: "1 \<le> max_columns \<and> 0 \<le> gap \<and> 0 \<le> tileWidth \<and> 0 \<le> tileHeight \<and>
    (\<forall>r \<in> set images. r < length (heap s)) \<and> grid_image < length (heap s) \<and>
    grid_image \<notin> set images"
  then have g: "1 \<le> max_columns" "0 \<le> gap" "0 \<le> fst (tileWidth, tileHeight)"
    "0 \<le> snd (tileWidth, tileHeight)"
    and v: "\<forall>r \<in> set images. r < length (heap s)" "grid_image < length (heap s)"
      "grid_image \<notin> set images"
    by simp_all
  note px = arrange_loop_pixels [OF g v, of 0]
  let ?S = "snd (arrange_images_on_grid grid_image images (tileWidth, tileHeight) max_columns gap s)"
  show "\<forall>i<length images. \<forall>u v. 0 \<le> u \<and> u < tileWidth \<and> 0 \<le> v \<and> v < tileHeight \<longrightarrow>
         im_px (heap ?S ! grid_image)
           ((int i mod max_columns) * (tileWidth + gap) + u)
           ((int i div max_columns) * (tileHeight + gap) + v)
         = (if in_bounds (heap s ! (images ! i)) u v then im_px (heap s ! (images ! i)) u v else black)"
  proof (intro allI impI)
    fix i u v
    assume i: "i < length images" and uv: "0 \<le> u \<and> u < tileWidth \<and> 0 \<le> v \<and> v < tileHeight"
    let ?o = "tile_origin max_columns gap (tileWidth, tileHeight) (0 + int i)"
    have "in_tile ?o (tileWidth, tileHeight) (fst ?o + u) (snd ?o + v)"
      using uv by (simp add: in_tile_def)
    with px i have "im_px (heap ?S ! grid_image) (fst ?o + u) (snd ?o + v) =
        tile_px (heap s ! (images ! i)) (fst ?o + u - fst ?o) (snd ?o + v - snd ?o)"
      unfolding arrange_images_on_grid_def by blast
    then show "im_px (heap ?S ! grid_image)
           ((int i mod max_columns) * (tileWidth + gap) + u)
           ((int i div max_columns) * (tileHeight + gap) + v)
         = (if in_bounds (heap s ! (images ! i)) u v then im_px (heap s ! (images ! i)) u v else black)"
      by (simp add: tile_origin_def tile_px_def)
  qed
  show "\<forall>x y. (\<forall>i<length images.
                 \<not> ((int i mod max_columns) * (tileWidth + gap) \<le> x \<and>
                    x < (int i mod max_columns) * (tileWidth + gap) + tileWidth \<and>
                    (int i div max_columns) * (tileHeight + gap) \<le> y \<and>
                    y < (int i div max_columns) * (tileHeight + gap) + tileHeight)) \<longrightarrow>
         im_px (heap ?S ! grid_image) x y = im_px (heap s ! grid_image) x y"
    using px unfolding arrange_images_on_grid_def by (simp add: in_tile_def tile_origin_def)
next
  assume h: "(\<forall>r \<in> set [a, b, c, d]. r < length (heap s) \<and> im_size (heap s ! r) = (10, 10)) \<and>
    allocable s (22, 22)"
  define g where "g = length (heap s)"
  define s1 where "s1 = snd (Image_new (22, 22) white s)"
  define S where "S = snd (arrange_loop g (10, 10) 2 2 0 [a, b, c, d] s1)"
  have h1: "heap s1 = heap s @ [\<lparr>im_size = (22, 22), im_px = (\<lambda>x y. white)\<rparr>]"
    "calls s1 = calls s @ [New g (22, 22) white]"
    using h by (simp_all add: s1_def new_ok g_def)
  have old: "heap s1 ! r = heap s ! r" if "r \<in> set [a, b, c, d]" for r
    using that h by (auto simp: h1 nth_append)
  have run: "create_images_grid_by_columns [a, b, c, d] 2 2 None s = Some (Inr g, S)"
    "im_size (heap S ! g) = (22, 22)"
    using create_images_grid_plain [where images = "[a, b, c, d]" and mc = 2 and mr = 2 and gap = 2 and s = s] h
    by (simp_all add: create_images_grid_by_columns_def g_def S_def s1_def)
  have cs: "calls S = calls s @
              [New g (22, 22) white, Paste g a (0, 0), Paste g b (12, 0),
               Paste g c (0, 12), Paste g d (12, 12)]"
    using h old by (simp add: S_def arrange_loop_same h1(2))
  have v: "\<forall>r \<in> set [a, b, c, d]. r < length (heap s1)" "g < length (heap s1)" "g \<notin> set [a, b, c, d]"
    using h by (auto simp: h1 g_def)
  have "(1 :: int) \<le> 2" "(0 :: int) \<le> 2" "0 \<le> fst (10 :: int, 10 :: int)" "0 \<le> snd (10 :: int, 10 :: int)"
    by simp_all
  from arrange_loop_pixels [OF this v, of 0] have
    A: "\<And>x y. (\<forall>k<4. \<not> in_tile (tile_origin 2 2 (10, 10) (int k)) (10, 10) x y) \<Longrightarrow>
          im_px (heap S ! g) x y = im_px (heap s1 ! g) x y"
    and B: "\<And>k x y. k < 4 \<Longrightarrow> in_tile (tile_origin 2 2 (10, 10) (int k)) (10, 10) x y \<Longrightarrow>
          im_px (heap S ! g) x y =
            tile_px (heap s1 ! ([a, b, c, d] ! k)) (x - fst (tile_origin 2 2 (10, 10) (int k)))
              (y - snd (tile_origin 2 2 (10, 10) (int k)))"
    unfolding S_def by simp_all
  have org: "tile_origin 2 2 (10, 10) 0 = (0, 0)" "tile_origin 2 2 (10, 10) 1 = (12, 0)"
    "tile_origin 2 2 (10, 10) 2 = (0, 12)" "tile_origin 2 2 (10, 10) 3 = (12, 12)"
    by (simp_all add: tile_origin_def)
  have tp: "tile_px (heap s1 ! r) u v = im_px (heap s ! r) u v"
    if "r \<in> set [a, b, c, d]" "0 \<le> u \<and> u < 10 \<and> 0 \<le> v \<and> v < 10" for r u v
    using that h old [OF that(1)] by (auto simp: tile_px_def in_bounds_def)
  have tiles: "im_px (heap S ! g) u v = im_px (heap s ! a) u v \<and>
               im_px (heap S ! g) (12 + u) v = im_px (heap s ! b) u v \<and>
               im_px (heap S ! g) u (12 + v) = im_px (heap s ! c) u v \<and>
               im_px (heap S ! g) (12 + u) (12 + v) = im_px (heap s ! d) u v"
    if uv: "0 \<le> u \<and> u < 10 \<and> 0 \<le> v \<and> v < 10" for u v
  proof -
    have "im_px (heap S ! g) u v = im_px (heap s ! a) u v"
      using B [of 0 u v] uv tp [of a u v] by (simp add: org in_tile_def)
    moreover have "im_px (heap S ! g) (12 + u) v = im_px (heap s ! b) u v"
      using B [of 1 "12 + u" v] uv tp [of b u v] by (simp add: org in_tile_def)
    moreover have "im_px (heap S ! g) u (12 + v) = im_px (heap s ! c) u v"
      using B [of 2 u "12 + v"] uv tp [of c u v] by (simp add: org in_tile_def)
    moreover have "im_px (heap S ! g) (12 + u) (12 + v) = im_px (heap s ! d) u v"
      using B [of 3 "12 + u" "12 + v"] uv tp [of d u v] by (simp add: org in_tile_def)
    ultimately show ?thesis by blast
  qed
  have four: "k = 0 \<or> k = 1 \<or> k = 2 \<or> k = 3" if "k < 4" for k :: nat
    using that by arith
  have white: "im_px (heap S ! g) x y = white"
    if xy: "(10 \<le> x \<and> x < 12) \<or> (10 \<le> y \<and> y < 12)" for x y
  proof -
    have "\<not> in_tile (tile_origin 2 2 (10, 10) (int k)) (10, 10) x y" if "k < 4" for k
      using four [OF that] xy by (auto simp: org in_tile_def)
    then have "im_px (heap S ! g) x y = im_px (heap s1 ! g) x y" by (intro A) simp
    then show ?thesis by (simp add: h1 g_def)
  qed
  show "\<exists>s'. create_images_grid_by_columns [a, b, c, d] 2 2 None s = Some (Inr (length (heap s)), s') \<and>
            im_size (heap s' ! length (heap s)) = (22, 22) \<and>
            calls s' = calls s @
              [New (length (heap s)) (22, 22) white,
               Paste (length (heap s)) a (0, 0), Paste (length (heap s)) b (12, 0),
               Paste (length (heap s)) c (0, 12), Paste (length (heap s)) d (12, 12)] \<and>
            (\<forall>u v. 0 \<le> u \<and> u < 10 \<and> 0 \<le> v \<and> v < 10 \<longrightarrow>
               im_px (heap s' ! length (heap s)) u v = im_px (heap s ! a) u v \<and>
               im_px (heap s' ! length (heap s)) (12 + u) v = im_px (heap s ! b) u v \<and>
               im_px (heap s' ! length (heap s)) u (12 + v) = im_px (heap s ! c) u v \<and>
               im_px (heap s' ! length (heap s)) (12 + u) (12 + v) = im_px (heap s ! d) u v) \<and>
            (\<forall>x y. (10 \<le> x \<and> x < 12) \<or> (10 \<le> y \<and> y < 12) \<longrightarrow>
               im_px (heap s' ! length (heap s)) x y = white)"
    using run cs tiles white unfolding g_def by blast
qed

lemma two_sizes_simps:
  "length (heap two_sizes) = 3" "calls two_sizes = []"
  "heap two_sizes ! 0 = \<lparr>im_size = (10, 10), im_px = (\<lambda>x y. RGB 200 0 0)\<rparr>"
  "heap two_sizes ! 1 = \<lparr>im_size = (4, 4), im_px = (\<lambda>x y. RGB 0 200 0)\<rparr>"
  "heap two_sizes ! Suc 0 = \<lparr>im_size = (4, 4), im_px = (\<lambda>x y. RGB 0 200 0)\<rparr>"
  "heap two_sizes ! 2 = \<lparr>im_size = (22, 10), im_px = (\<lambda>x y. white)\<rparr>"
  by (simp_all add: two_sizes_def)

theorem tile_origins_witness:
  "(\<exists>cs. calls (snd (arrange_images_on_grid 4 [0, 1, 2, 3] (10, 10) 2 2 four_tiles)) = cs \<and>
         length (filter is_paste cs) = 4 \<and>
         (\<exists>src. filter is_paste cs ! 3 = Paste 4 src (12, 12))) \<and>
   im_px (heap (snd (arrange_images_on_grid 2 [0, 1] (10, 10) 2 2 two_sizes)) ! 2) 13 1 = RGB 0 200 0 \<and>
   im_px (heap (snd (arrange_images_on_grid 2 [0, 1] (10, 10) 2 2 two_sizes)) ! 2) 17 5 = black \<and>
   im_px (heap (snd (arrange_images_on_grid 2 [0, 1] (10, 10) 2 2 two_sizes)) ! 2) 10 3 = white \<and>
   (\<exists>s'. create_images_grid_by_columns [0, 1, 2, 3] 2 2 None four_tiles = Some (Inr 4, s') \<and>
         im_size (heap s' ! 4) = (22, 22) \<and>
         calls s' = [New 4 (22, 22) white, Paste 4 0 (0, 0), Paste 4 1 (12, 0),
                     Paste 4 2 (0, 12), Paste 4 3 (12, 12)] \<and>
         im_px (heap s' ! 4) 15 16 = RGB 3 4 7 \<and> im_px (heap s' ! 4) 10 5 = white)"
proof -
  let ?T = "snd (arrange_images_on_grid 2 [0, 1] (10, 10) 2 2 two_sizes)"
  note f = tile_origins [of 2 4 "[0, 1, 2, 3]" 10 10 2 four_tiles 0 1 2 3]
  note t = tile_origins [of 2 2 "[0, 1]" 10 10 2 two_sizes]
  have g: "(2::int) \<noteq> 0" by simp
  from f g have c1: "\<exists>cs. calls (snd (arrange_images_on_grid 4 [0, 1, 2, 3] (10, 10) 2 2 four_tiles)) = cs \<and>
         length (filter is_paste cs) = 4 \<and>
         (\<exists>src. filter is_paste cs ! 3 = Paste 4 src (12, 12))"
    by (auto simp: eval_nat_numeral)
  have h2: "1 \<le> (2::int) \<and> 0 \<le> (2::int) \<and> 0 \<le> (10::int) \<and> 0 \<le> (10::int) \<and>
    (\<forall>r \<in> set [0, 1 :: nat]. r < length (heap two_sizes)) \<and> 2 < length (heap two_sizes) \<and>
    2 \<notin> set [0, 1 :: nat]"
    by (simp add: two_sizes_simps)
  from t h2 have
    inner: "\<forall>i<length [0, 1 :: nat]. \<forall>u v. 0 \<le> u \<and> u < 10 \<and> 0 \<le> v \<and> v < 10 \<longrightarrow>
         im_px (heap ?T ! 2) ((int i mod 2) * (10 + 2) + u) ((int i div 2) * (10 + 2) + v)
         = (if in_bounds (heap two_sizes ! ([0, 1] ! i)) u v
            then im_px (heap two_sizes ! ([0, 1] ! i)) u v else black)"
    and outer: "\<forall>x y. (\<forall>i<length [0, 1 :: nat].
                 \<not> ((int i mod 2) * (10 + 2) \<le> x \<and> x < (int i mod 2) * (10 + 2) + 10 \<and>
                    (int i div 2) * (10 + 2) \<le> y \<and> y < (int i div 2) * (10 + 2) + 10)) \<longrightarrow>
         im_px (heap ?T ! 2) x y = im_px (heap two_sizes ! 2) x y"
    by blast+
  from inner [rule_format, of 1 1 1] have p1: "im_px (heap ?T ! 2) 13 1 = RGB 0 200 0"
    by (simp add: two_sizes_simps in_bounds_def)
  from inner [rule_format, of 1 5 5] have p2: "im_px (heap ?T ! 2) 17 5 = black"
    by (simp add: two_sizes_simps in_bounds_def)
  have "\<forall>i<length [0, 1 :: nat].
                 \<not> ((int i mod 2) * (10 + 2) \<le> (10::int) \<and> (10::int) < (int i mod 2) * (10 + 2) + 10 \<and>
                    (int i div 2) * (10 + 2) \<le> (3::int) \<and> (3::int) < (int i div 2) * (10 + 2) + 10)"
    by (auto simp: less_Suc_eq)
  with outer have p3: "im_px (heap ?T ! 2) 10 3 = white"
    by (simp add: two_sizes_simps)
  have h3: "(\<forall>r \<in> set [0, 1, 2, 3 :: nat]. r < length (heap four_tiles) \<and>
              im_size (heap four_tiles ! r) = (10, 10)) \<and> allocable four_tiles (22, 22)"
    by simp
  from f h3 obtain s' where
    s': "create_images_grid_by_columns [0, 1, 2, 3] 2 2 None four_tiles = Some (Inr (length (heap four_tiles)), s')"
      "im_size (heap s' ! length (heap four_tiles)) = (22, 22)"
      "calls s' = calls four_tiles @
              [New (length (heap four_tiles)) (22, 22) white,
               Paste (length (heap four_tiles)) 0 (0, 0), Paste (length (heap four_tiles)) 1 (12, 0),
               Paste (length (heap four_tiles)) 2 (0, 12), Paste (length (heap four_tiles)) 3 (12, 12)]"
      "\<forall>u v. 0 \<le> u \<and> u < 10 \<and> 0 \<le> v \<and> v < 10 \<longrightarrow>
               im_px (heap s' ! length (heap four_tiles)) u v = im_px (heap four_tiles ! 0) u v \<and>
               im_px (heap s' ! length (heap four_tiles)) (12 + u) v = im_px (heap four_tiles ! 1) u v \<and>
               im_px (heap s' ! length (heap four_tiles)) u (12 + v) = im_px (heap four_tiles ! 2) u v \<and>
               im_px (heap s' ! length (heap four_tiles)) (12 + u) (12 + v) = im_px (heap four_tiles ! 3) u v"
      "\<forall>x y. (10 \<le> x \<and> x < 12) \<or> (10 \<le> y \<and> y < 12) \<longrightarrow>
               im_px (heap s' ! length (heap four_tiles)) x y = white"
    by blast
  from s'(4) [rule_format, of 3 4] have q1: "im_px (heap s' ! 4) 15 16 = RGB 3 4 7" by simp
  from s'(5) [rule_format, of 10 5] have q2: "im_px (heap s' ! 4) 10 5 = white" by simp
  show ?thesis using c1 p1 p2 p3 s'(1-3) q1 q2 by auto
qed


section \<open>Drawing one label\<close>

lemma calls_draw_center_text:
  "calls (draw_center_text draw xy txt black s) = calls s @ [label_call draw xy txt]"
  by (simp add: draw_center_text_def label_call_def split: prod.splits)

lemma size_draw_center_text [simp]:
  "im_size (heap (draw_center_text draw xy txt fill s) ! r) = im_size (heap s ! r)"
  by (simp add: draw_center_text_def split: prod.splits)

lemma length_draw_center_text [simp]:
  "length (heap (draw_center_text draw xy txt fill s)) = length (heap s)"
  by (simp add: draw_center_text_def split: prod.splits)

lemma frame_draw_center_text:
  "r \<noteq> draw_image draw \<Longrightarrow> heap (draw_center_text draw xy txt fill s) ! r = heap s ! r"
  by (simp add: draw_center_text_def frame_draw_text split: prod.splits)

lemma draw_text_by_xy_in:
  "0 \<le> i \<Longrightarrow> i < int (length texts) \<Longrightarrow>
     draw_text_by_xy xy i draw texts s = (i + 1, draw_center_text draw xy (texts ! nat i) black s)"
  by (simp add: draw_text_by_xy_def py_index_def)

lemma draw_text_by_xy_out:
  "int (length texts) \<le> i \<Longrightarrow> draw_text_by_xy xy i draw texts s = (i + 1, s)"
  by (simp add: draw_text_by_xy_def py_index_def)

lemma fst_draw_text_by_xy [simp]: "fst (draw_text_by_xy xy i draw texts s) = i + 1"
  by (simp add: draw_text_by_xy_def split: sum.splits)

lemma size_draw_text_by_xy [simp]:
  "im_size (heap (snd (draw_text_by_xy xy i draw texts s)) ! r) = im_size (heap s ! r)"
  by (simp add: draw_text_by_xy_def split: sum.splits)

lemma length_draw_text_by_xy [simp]:
  "length (heap (snd (draw_text_by_xy xy i draw texts s))) = length (heap s)"
  by (simp add: draw_text_by_xy_def split: sum.splits)

lemma frame_draw_text_by_xy:
  "r \<noteq> draw_image draw \<Longrightarrow> heap (snd (draw_text_by_xy xy i draw texts s)) ! r = heap s ! r"
  by (simp add: draw_text_by_xy_def frame_draw_center_text split: sum.splits)

section \<open>The label loops as counted loops\<close>

lemma counted_bands_Suc:
  "counted_bands (Suc k) dx dy draw texts i (x0, y0, x1, y1) s =
     counted_bands k dx dy draw texts (i + 1) (x0 + dx, y0 + dy, x1 + dx, y1 + dy)
       (snd (draw_text_by_xy (x0, y0, x1, y1) i draw texts s))"
  by (simp add: split_beta)

declare counted_bands.simps(2) [simp del]

lemma fst_counted_bands: "fst (counted_bands k dx dy draw texts i (x0, y0, x1, y1) s) = i + int k"
  by (induction k arbitrary: i x0 y0 x1 y1 s) (simp_all add: counted_bands_Suc)

lemma size_counted_bands:
  "im_size (heap (snd (counted_bands k dx dy draw texts i (x0, y0, x1, y1) s)) ! r) = im_size (heap s ! r)"
  by (induction k arbitrary: i x0 y0 x1 y1 s) (simp_all add: counted_bands_Suc)

lemma length_counted_bands:
  "length (heap (snd (counted_bands k dx dy draw texts i (x0, y0, x1, y1) s))) = length (heap s)"
  by (induction k arbitrary: i x0 y0 x1 y1 s) (simp_all add: counted_bands_Suc)

lemma frame_counted_bands:
  "r \<noteq> draw_image draw \<Longrightarrow>
     heap (snd (counted_bands k dx dy draw texts i (x0, y0, x1, y1) s)) ! r = heap s ! r"
  by (induction k arbitrary: i x0 y0 x1 y1 s) (simp_all add: counted_bands_Suc frame_draw_text_by_xy)

lemma draw_column_loop_counted:
  assumes "0 < fst (gi_one_image_size gi) + gi_gap gi"
  shows "fst (im_size (heap s ! gi_image gi)) + lp + gi_gap gi
           = x0 + int k * (fst (gi_one_image_size gi) + gi_gap gi) \<Longrightarrow>
         draw_column_loop draw texts gi lp i x0 y0 x1 y1 s =
           Some (counted_bands k (fst (gi_one_image_size gi) + gi_gap gi) 0 draw texts i (x0, y0, x1, y1) s)"
proof (induction k arbitrary: i x0 x1 s)
  case 0
  then show ?case by (subst draw_column_loop.simps) simp
next
  case (Suc k)
  let ?st = "fst (gi_one_image_size gi) + gi_gap gi"
  let ?s' = "snd (draw_text_by_xy (x0, y0, x1, y1) i draw texts s)"
  have "0 < (1 + int k) * ?st" using assms by simp
  then have ne: "x0 \<noteq> fst (im_size (heap s ! gi_image gi)) + lp + gi_gap gi"
    using Suc.prems assms by simp
  have "fst (im_size (heap ?s' ! gi_image gi)) + lp + gi_gap gi = (x0 + ?st) + int k * ?st"
    using Suc.prems by (simp add: algebra_simps)
  from Suc.IH [OF this, of "i + 1" "x1 + ?st"]
  show ?case using ne
    by (subst draw_column_loop.simps) (simp add: split_beta counted_bands_Suc)
qed

lemma draw_row_loop_counted:
  assumes "0 < snd (gi_one_image_size gi) + gi_gap gi"
  shows "snd (im_size (heap s ! gi_image gi)) + tp + gi_gap gi
           = y0 + int k * (snd (gi_one_image_size gi) + gi_gap gi) \<Longrightarrow>
         draw_row_loop draw texts gi tp i x0 y0 x1 y1 s =
           Some (counted_bands k 0 (snd (gi_one_image_size gi) + gi_gap gi) draw texts i (x0, y0, x1, y1) s)"
proof (induction k arbitrary: i y0 y1 s)
  case 0
  then show ?case by (subst draw_row_loop.simps) simp
next
  case (Suc k)
  let ?st = "snd (gi_one_image_size gi) + gi_gap gi"
  let ?s' = "snd (draw_text_by_xy (x0, y0, x1, y1) i draw texts s)"
  have "0 < (1 + int k) * ?st" using assms by simp
  then have ne: "y0 \<noteq> snd (im_size (heap s ! gi_image gi)) + tp + gi_gap gi"
    using Suc.prems assms by simp
  have "snd (im_size (heap ?s' ! gi_image gi)) + tp + gi_gap gi = (y0 + ?st) + int k * ?st"
    using Suc.prems by (simp add: algebra_simps)
  from Suc.IH [OF this, of "i + 1" "y1 + ?st"]
  show ?case using ne
    by (subst draw_row_loop.simps) (simp add: split_beta counted_bands_Suc)
qed

lemma calls_counted_bands:
  "calls (snd (counted_bands k dx dy draw texts (int i0) (x0, y0, x1, y1) s)) =
     calls s @ map (\<lambda>j. label_call draw
                          (x0 + (int j - int i0) * dx, y0 + (int j - int i0) * dy,
                           x1 + (int j - int i0) * dx, y1 + (int j - int i0) * dy) (texts ! j))
                 [i0..<min (length texts) (i0 + k)]"
proof (induction k arbitrary: i0 x0 y0 x1 y1 s)
  case 0
  show ?case by simp
next
  case (Suc k)
  let ?s1 = "snd (draw_text_by_xy (x0, y0, x1, y1) (int i0) draw texts s)"
  have fe: "(\<lambda>j. label_call draw
                (x0 + dx + (int j - int (Suc i0)) * dx, y0 + dy + (int j - int (Suc i0)) * dy,
                 x1 + dx + (int j - int (Suc i0)) * dx, y1 + dy + (int j - int (Suc i0)) * dy) (texts ! j))
          = (\<lambda>j. label_call draw
                (x0 + (int j - int i0) * dx, y0 + (int j - int i0) * dy,
                 x1 + (int j - int i0) * dx, y1 + (int j - int i0) * dy) (texts ! j))"
    by (simp add: algebra_simps)
  have ih: "calls (snd (counted_bands k dx dy draw texts (int i0 + 1) (x0 + dx, y0 + dy, x1 + dx, y1 + dy) ?s1)) =
     calls ?s1 @ map (\<lambda>j. label_call draw
                (x0 + (int j - int i0) * dx, y0 + (int j - int i0) * dy,
                 x1 + (int j - int i0) * dx, y1 + (int j - int i0) * dy) (texts ! j))
                 [Suc i0..<min (length texts) (Suc i0 + k)]"
    using Suc [of "Suc i0" "x0 + dx" "y0 + dy" "x1 + dx" "y1 + dy" ?s1] unfolding fe
    by (simp add: add.commute)
  show ?case
  proof (cases "i0 < length texts")
    case True
    then have s1: "calls ?s1 = calls s @ [label_call draw (x0, y0, x1, y1) (texts ! i0)]"
      by (simp add: draw_text_by_xy_in calls_draw_center_text)
    have "i0 < min (length texts) (i0 + Suc k)" using True by simp
    then have l: "[i0..<min (length texts) (i0 + Suc k)] = i0 # [Suc i0..<min (length texts) (Suc i0 + k)]"
      by (simp add: upt_conv_Cons)
    show ?thesis unfolding counted_bands_Suc ih s1 l by simp
  next
    case False
    then have s1: "?s1 = s" by (simp add: draw_text_by_xy_out)
    show ?thesis unfolding counted_bands_Suc ih using False by (simp add: s1)
  qed
qed

text \<open>
  C7. When the tiles are at least one pixel wide and high, the gap is not negative and the
  grid image has the size of \<open>max_columns\<close> by \<open>max_rows\<close> tiles, the loop of
  \<^verbatim>\<open>_draw_column_text\<close> returns after exactly \<open>max_columns\<close> iterations and the
  loop of \<^verbatim>\<open>_draw_row_text\<close> after exactly \<open>max_rows\<close>, whatever the labels are.
\<close>

theorem label_loops_terminate:
  assumes "gi_one_image_size grid_info = (tileWidth, tileHeight)"
    and "gi_gap grid_info = gap"
    and "im_size (heap s ! gi_image grid_info) =
           (tileWidth * max_columns + (max_columns - 1) * gap,
            tileHeight * max_rows + (max_rows - 1) * gap)"
    and "1 \<le> tileWidth" and "1 \<le> tileHeight" and "0 \<le> gap"
    and "1 \<le> max_columns" and "1 \<le> max_rows"
  shows "(\<exists>s'. draw_column_loop draw texts grid_info left_padding
                 0 left_padding 0 (left_padding + tileWidth) top_padding s = Some (max_columns, s')) \<and>
         (\<exists>s'. draw_row_loop draw texts grid_info top_padding
                 0 0 top_padding left_padding (top_padding + tileHeight) s = Some (max_rows, s')) \<and>
         draw_column_text draw texts grid_info left_padding top_padding s \<noteq> None \<and>
         draw_row_text draw texts grid_info left_padding top_padding s \<noteq> None"
proof -
  have st: "0 < fst (gi_one_image_size grid_info) + gi_gap grid_info"
    "0 < snd (gi_one_image_size grid_info) + gi_gap grid_info"
    using assms by simp_all
  have bc: "fst (im_size (heap s ! gi_image grid_info)) + left_padding + gi_gap grid_info
              = left_padding + int (nat max_columns) * (fst (gi_one_image_size grid_info) + gi_gap grid_info)"
    using assms by (simp add: algebra_simps)
  have br: "snd (im_size (heap s ! gi_image grid_info)) + top_padding + gi_gap grid_info
              = top_padding + int (nat max_rows) * (snd (gi_one_image_size grid_info) + gi_gap grid_info)"
    using assms by (simp add: algebra_simps)
  note c = draw_column_loop_counted [OF st(1) bc, of draw texts 0 0 "left_padding + tileWidth" top_padding]
  note r = draw_row_loop_counted [OF st(2) br, of draw texts 0 0 left_padding "top_padding + tileHeight"]
  have fc: "fst (counted_bands (nat max_columns) (fst (gi_one_image_size grid_info) + gi_gap grid_info) 0
                   draw texts 0 (left_padding, 0, left_padding + tileWidth, top_padding) s) = max_columns"
    using assms(7) by (simp add: fst_counted_bands)
  have fr: "fst (counted_bands (nat max_rows) 0 (snd (gi_one_image_size grid_info) + gi_gap grid_info)
                   draw texts 0 (0, top_padding, left_padding, top_padding + tileHeight) s) = max_rows"
    using assms(8) by (simp add: fst_counted_bands)
  have "\<exists>s'. draw_column_loop draw texts grid_info left_padding
                 0 left_padding 0 (left_padding + tileWidth) top_padding s = Some (max_columns, s')"
    unfolding c using fc by (metis prod.collapse)
  moreover have "\<exists>s'. draw_row_loop draw texts grid_info top_padding
                 0 0 top_padding left_padding (top_padding + tileHeight) s = Some (max_rows, s')"
    unfolding r using fr by (metis prod.collapse)
  moreover have "draw_column_text draw texts grid_info left_padding top_padding s \<noteq> None"
    using c assms(1) by (simp add: draw_column_text_def)
  moreover have "draw_row_text draw texts grid_info left_padding top_padding s \<noteq> None"
    using r assms(1) by (simp add: draw_row_text_def)
  ultimately show ?thesis by blast
qed

theorem label_loops_terminate_witness:
  "(\<exists>s'. draw_column_loop \<lparr>draw_image = 1, draw_font = test_font\<rparr> [''a''] info_2x2 22
            0 22 0 32 20 grid_2x2 = Some (2, s')) \<and>
   (\<exists>s'. draw_row_loop \<lparr>draw_image = 1, draw_font = test_font\<rparr> [''a'', ''b'', ''c''] info_2x2 20
            0 0 20 22 30 grid_2x2 = Some (2, s'))"
proof -
  have c: "\<exists>s'. draw_column_loop \<lparr>draw_image = 1, draw_font = test_font\<rparr> [''a''] info_2x2 22
            0 22 0 32 20 grid_2x2 = Some (2, s')"
    using label_loops_terminate [of info_2x2 10 10 2 grid_2x2 2 2 "\<lparr>draw_image = 1, draw_font = test_font\<rparr>" "[''a'']" 22 20]
    by (simp add: info_2x2_def grid_2x2_def)
  have r: "\<exists>s'. draw_row_loop \<lparr>draw_image = 1, draw_font = test_font\<rparr> [''a'', ''b'', ''c''] info_2x2 20
            0 0 20 22 30 grid_2x2 = Some (2, s')"
    using label_loops_terminate [of info_2x2 10 10 2 grid_2x2 2 2 "\<lparr>draw_image = 1, draw_font = test_font\<rparr>" "[''a'', ''b'', ''c'']" 22 20]
    by (simp add: info_2x2_def grid_2x2_def)
  show ?thesis using c r by blast
qed

section \<open>Which labels are drawn, and where\<close>

text \<open>
  C9. A band with an index below the number of labels draws the label of that index; a
  band with an index from the number of labels on draws nothing and raises nothing; in
  both cases the index returned is one more. Over the whole loop, on each axis, the
  labels drawn are those of the indices below the minimum of the number of labels and
  the number of bands, label \<open>j\<close> centred in band \<open>j\<close>.
\<close>

theorem labels_by_band:
  assumes "gi_one_image_size grid_info = (tileWidth, tileHeight)"
    and "gi_gap grid_info = gap"
    and "im_size (heap s ! gi_image grid_info) =
           (tileWidth * max_columns + (max_columns - 1) * gap,
            tileHeight * max_rows + (max_rows - 1) * gap)"
    and "1 \<le> tileWidth" and "1 \<le> tileHeight" and "0 \<le> gap"
    and "1 \<le> max_columns" and "1 \<le> max_rows"
  shows "(\<forall>xy i s0. 0 \<le> i \<and> i < int (length texts) \<longrightarrow>
            draw_text_by_xy xy i draw texts s0 =
              (i + 1, draw_center_text draw xy (texts ! nat i) black s0)) \<and>
         (\<forall>xy i s0. int (length texts) \<le> i \<longrightarrow> draw_text_by_xy xy i draw texts s0 = (i + 1, s0)) \<and>
         (\<exists>s'. draw_column_text draw texts grid_info left_padding top_padding s = Some s' \<and>
               calls s' = calls s @
                 map (\<lambda>j. label_call draw
                            (left_padding + int j * (tileWidth + gap), 0,
                             left_padding + tileWidth + int j * (tileWidth + gap), top_padding)
                            (texts ! j))
                   [0..<min (length texts) (nat max_columns)]) \<and>
         (\<exists>s'. draw_row_text draw texts grid_info left_padding top_padding s = Some s' \<and>
               calls s' = calls s @
                 map (\<lambda>j. label_call draw
                            (0, top_padding + int j * (tileHeight + gap),
                             left_padding, top_padding + tileHeight + int j * (tileHeight + gap))
                            (texts ! j))
                   [0..<min (length texts) (nat max_rows)])"
proof -
  have st: "0 < fst (gi_one_image_size grid_info) + gi_gap grid_info"
    "0 < snd (gi_one_image_size grid_info) + gi_gap grid_info"
    using assms by simp_all
  have bc: "fst (im_size (heap s ! gi_image grid_info)) + left_padding + gi_gap grid_info
              = left_padding + int (nat max_columns) * (fst (gi_one_image_size grid_info) + gi_gap grid_info)"
    using assms by (simp add: algebra_simps)
  have br: "snd (im_size (heap s ! gi_image grid_info)) + top_padding + gi_gap grid_info
              = top_padding + int (nat max_rows) * (snd (gi_one_image_size grid_info) + gi_gap grid_info)"
    using assms by (simp add: algebra_simps)
  note c = draw_column_loop_counted [OF st(1) bc, of draw texts 0 0 "left_padding + tileWidth" top_padding]
  note r = draw_row_loop_counted [OF st(2) br, of draw texts 0 0 left_padding "top_padding + tileHeight"]
  have cc: "\<exists>s'. draw_column_text draw texts grid_info left_padding top_padding s = Some s' \<and>
               calls s' = calls s @
                 map (\<lambda>j. label_call draw
                            (left_padding + int j * (tileWidth + gap), 0,
                             left_padding + tileWidth + int j * (tileWidth + gap), top_padding)
                            (texts ! j))
                   [0..<min (length texts) (nat max_columns)]"
    using c assms(1,2)
      calls_counted_bands [of "nat max_columns" "tileWidth + gap" 0 draw texts 0
        left_padding 0 "left_padding + tileWidth" top_padding s]
    by (simp add: draw_column_text_def)
  have rr: "\<exists>s'. draw_row_text draw texts grid_info left_padding top_padding s = Some s' \<and>
               calls s' = calls s @
                 map (\<lambda>j. label_call draw
                            (0, top_padding + int j * (tileHeight + gap),
                             left_padding, top_padding + tileHeight + int j * (tileHeight + gap))
                            (texts ! j))
                   [0..<min (length texts) (nat max_rows)]"
    using r assms(1,2)
      calls_counted_bands [of "nat max_rows" 0 "tileHeight + gap" draw texts 0
        0 top_padding left_padding "top_padding + tileHeight" s]
    by (simp add: draw_row_text_def)
  show ?thesis using cc rr by (simp add: draw_text_by_xy_in draw_text_by_xy_out)
qed

theorem labels_by_band_witness:
  "(\<exists>s'. draw_column_text \<lparr>draw_image = 1, draw_font = test_font\<rparr> [''a''] info_2x2 22 20 grid_2x2 = Some s' \<and>
         calls s' = [Text 1 (24, 11 / 2) ''a'' black]) \<and>
   (\<exists>s'. draw_row_text \<lparr>draw_image = 1, draw_font = test_font\<rparr> [''ab'', ''c'', ''d''] info_2x2 22 20 grid_2x2 = Some s' \<and>
         calls s' = [Text 1 (5, 41 / 2) ''ab'' black, Text 1 (8, 65 / 2) ''c'' black])"
proof -
  have c: "\<exists>s'. draw_column_text \<lparr>draw_image = 1, draw_font = test_font\<rparr> [''a''] info_2x2 22 20 grid_2x2 = Some s' \<and>
         calls s' = [Text 1 (24, 11 / 2) ''a'' black]"
    using labels_by_band [of info_2x2 10 10 2 grid_2x2 2 2 "[''a'']" "\<lparr>draw_image = 1, draw_font = test_font\<rparr>" 22 20]
    by (simp add: info_2x2_def grid_2x2_def label_call_def test_font_def)
  have r: "\<exists>s'. draw_row_text \<lparr>draw_image = 1, draw_font = test_font\<rparr> [''ab'', ''c'', ''d''] info_2x2 22 20 grid_2x2 = Some s' \<and>
         calls s' = [Text 1 (5, 41 / 2) ''ab'' black, Text 1 (8, 65 / 2) ''c'' black]"
    using labels_by_band [of info_2x2 10 10 2 grid_2x2 2 2 "[''ab'', ''c'', ''d'']" "\<lparr>draw_image = 1, draw_font = test_font\<rparr>" 22 20]
    by (simp add: info_2x2_def grid_2x2_def label_call_def test_font_def upt_rec [of 0] upt_rec [of 1] upt_rec [of 2])
  show ?thesis using c r by blast
qed

text \<open>
  C10. A label drawn in the band \<open>(x0, y0, x1, y1)\<close> is drawn at
  \<open>((x1 - bboxWidth + x0) / 2, (y1 - bboxHeight + y0) / 2)\<close>, where \<open>bboxWidth\<close> and
  \<open>bboxHeight\<close> are the last two components of the bounding box of the label measured
  at the origin.
\<close>

theorem centred_label_position:
  assumes "textbbox (draw_font draw) txt = (bboxLeft, bboxTop, bboxWidth, bboxHeight)"
  shows "draw_center_text draw (x0, y0, x1, y1) txt fill s =
           draw_text draw (of_int (x1 - bboxWidth + x0) / 2, of_int (y1 - bboxHeight + y0) / 2) txt fill s \<and>
         calls (draw_center_text draw (x0, y0, x1, y1) txt fill s) =
           calls s @ [Text (draw_image draw)
                        (of_int (x1 - bboxWidth + x0) / 2, of_int (y1 - bboxHeight + y0) / 2) txt fill]"
  using assms by (simp add: draw_center_text_def)

theorem centred_label_position_witness:
  "textbbox test_font ''ab'' = (0, 2, 12, 9) \<and>
   calls (draw_center_text \<lparr>draw_image = 1, draw_font = test_font\<rparr> (0, 20, 22, 30) ''ab'' black grid_2x2) =
     [Text 1 (5, 41 / 2) ''ab'' black]"
proof -
  have b: "textbbox (draw_font \<lparr>draw_image = 1, draw_font = test_font\<rparr>) ''ab'' = (0, 2, 12, 9)"
    by (simp add: test_font_def)
  from centred_label_position [OF b, of 0 20 22 30 black grid_2x2] b
  show ?thesis by (simp add: grid_2x2_def)
qed

section \<open>The annotation stage follows the grid stage\<close>

lemma create_images_grid_returns:
  "create_images_grid images gap mc mr None s \<noteq> None"
  by (simp add: create_images_grid_def Let_def split: list.splits prod.splits sum.splits)

lemma create_images_grid_annotated_ok:
  "create_images_grid images gap mc mr None s = Some (Inr g, s2) \<Longrightarrow>
   create_images_grid images gap mc mr (Some a) s =
     create_grid_annotations \<lparr>gi_image = g, gi_gap = gap, gi_one_image_size = im_size (heap s ! hd images)\<rparr>
       (column_texts a) (row_texts a) (font a) s2"
  by (auto simp: create_images_grid_def Let_def split: list.splits prod.splits sum.splits)

lemma create_images_grid_annotated_error:
  "create_images_grid images gap mc mr None s = Some (Inl e, s2) \<Longrightarrow>
   create_images_grid images gap mc mr (Some a) s = Some (Inl e, s2)"
  by (auto simp: create_images_grid_def Let_def split: list.splits prod.splits sum.splits)

lemma create_grid_annotations_empty:
  "ctexts = [] \<or> rtexts = [] \<Longrightarrow>
   create_grid_annotations gi ctexts rtexts fnt s = Some (Inl (ValueError ''Column text or row text is empty''), s)"
  by (simp add: create_grid_annotations_def)

lemma create_grid_annotations_nonempty:
  "ctexts \<noteq> [] \<Longrightarrow> rtexts \<noteq> [] \<Longrightarrow>
   create_grid_annotations gi ctexts rtexts fnt s \<noteq> Some (Inl (ValueError ''Column text or row text is empty''), s')"
  by (auto simp: create_grid_annotations_def Let_def Image_new_def
      split: prod.splits sum.splits option.splits if_splits py_num.splits)

lemma builder_empty_labels:
  assumes "column_texts a = [] \<or> row_texts a = []"
  shows "(\<exists>e s'. create_images_grid images gap mc mr (Some a) s = Some (Inl e, s')) \<and>
         (\<forall>g s2. create_images_grid images gap mc mr None s = Some (Inr g, s2) \<longrightarrow>
            create_images_grid images gap mc mr (Some a) s =
              Some (Inl (ValueError ''Column text or row text is empty''), s2))"
proof -
  obtain r s2 where p: "create_images_grid images gap mc mr None s = Some (r, s2)"
    using create_images_grid_returns [of images gap mc mr s] by (cases "create_images_grid images gap mc mr None s") auto
  show ?thesis
  proof (cases r)
    case (Inl e)
    then show ?thesis using p create_images_grid_annotated_error [of images gap mc mr s e s2 a] by simp
  next
    case (Inr g)
    then show ?thesis
      using p create_images_grid_annotated_ok [of images gap mc mr s g s2 a]
        create_grid_annotations_empty [OF assms]
      by simp
  qed
qed

lemma arrange_loop_error:
  "fst (arrange_loop g sz mc gap i imgs s) = Inr () \<or>
   fst (arrange_loop g sz mc gap i imgs s) = Inl ZeroDivisionError"
proof (induction imgs arbitrary: i s)
  case Nil
  show ?case by simp
next
  case (Cons a imgs)
  then show ?case
    by (cases "im_size (heap s ! a) = sz") (simp_all add: arrange_loop_same arrange_loop_crop)
qed

lemma arrange_loop_errorD:
  "arrange_loop g sz mc gap i imgs s = (Inl e, s') \<Longrightarrow> e = ZeroDivisionError"
  using arrange_loop_error [of g sz mc gap i imgs s] by simp

lemma grid_stage_errors:
  "create_images_grid images gap mc mr None s \<noteq> Some (Inl (ValueError ''Column text or row text is empty''), s')"
proof (cases images)
  case Nil
  then show ?thesis by (simp add: create_images_grid_def)
next
  case (Cons a rest)
  show ?thesis
    by (auto simp: create_images_grid_def Cons Let_def Image_new_def arrange_images_on_grid_def
        split: prod.splits sum.splits if_splits dest: arrange_loop_errorD)
qed

lemma builder_labels_present:
  assumes "column_texts a \<noteq> []" and "row_texts a \<noteq> []"
  shows "create_images_grid images gap mc mr (Some a) s \<noteq>
           Some (Inl (ValueError ''Column text or row text is empty''), s')"
proof -
  obtain r s2 where p: "create_images_grid images gap mc mr None s = Some (r, s2)"
    using create_images_grid_returns [of images gap mc mr s] by (cases "create_images_grid images gap mc mr None s") auto
  show ?thesis
  proof (cases r)
    case (Inl e)
    then show ?thesis
      using p create_images_grid_annotated_error [of images gap mc mr s e s2 a]
        grid_stage_errors [of images gap mc mr s s2] by auto
  next
    case (Inr g)
    then show ?thesis
      using p create_images_grid_annotated_ok [of images gap mc mr s g s2 a]
        create_grid_annotations_nonempty [OF assms] by simp
  qed
qed

text \<open>
  C3. When an annotation is given and its column labels or its row labels are empty, each
  entry point raises an error. If the grid stage succeeds, the error is the
  \<^verbatim>\<open>ValueError\<close> of \<^verbatim>\<open>_create_grid_annotations\<close> and the state at the raise is the
  state in which the call without annotation returns the grid: the grid is computed,
  and no canvas has been allocated and nothing drawn for the annotation. When both
  label lists are not empty this error is not raised.
\<close>

theorem empty_labels_rejected:
  "((column_texts a = [] \<or> row_texts a = []) \<longrightarrow>
      (\<exists>e s'. create_images_grid_by_columns images gap max_columns (Some a) s = Some (Inl e, s')) \<and>
      (\<forall>g s2. create_images_grid_by_columns images gap max_columns None s = Some (Inr g, s2) \<longrightarrow>
         create_images_grid_by_columns images gap max_columns (Some a) s =
           Some (Inl (ValueError ''Column text or row text is empty''), s2)) \<and>
      (\<exists>e s'. create_images_grid_by_rows images gap max_rows (Some a) s = Some (Inl e, s')) \<and>
      (\<forall>g s2. create_images_grid_by_rows images gap max_rows None s = Some (Inr g, s2) \<longrightarrow>
         create_images_grid_by_rows images gap max_rows (Some a) s =
           Some (Inl (ValueError ''Column text or row text is empty''), s2))) \<and>
   (column_texts a \<noteq> [] \<and> row_texts a \<noteq> [] \<longrightarrow>
      (\<forall>s'. create_images_grid_by_columns images gap max_columns (Some a) s \<noteq>
              Some (Inl (ValueError ''Column text or row text is empty''), s')) \<and>
      (\<forall>s'. create_images_grid_by_rows images gap max_rows (Some a) s \<noteq>
              Some (Inl (ValueError ''Column text or row text is empty''), s')))"
proof (intro conjI impI)
  assume e: "column_texts a = [] \<or> row_texts a = []"
  note b = builder_empty_labels [OF e]
  show "\<exists>e s'. create_images_grid_by_columns images gap max_columns (Some a) s = Some (Inl e, s')"
    using b [of images gap max_columns "(int (length images) + max_columns - 1) div max_columns" s]
    by (simp add: create_images_grid_by_columns_def)
  show "\<forall>g s2. create_images_grid_by_columns images gap max_columns None s = Some (Inr g, s2) \<longrightarrow>
         create_images_grid_by_columns images gap max_columns (Some a) s =
           Some (Inl (ValueError ''Column text or row text is empty''), s2)"
    using b [of images gap max_columns "(int (length images) + max_columns - 1) div max_columns" s]
    by (simp add: create_images_grid_by_columns_def)
  show "\<exists>e s'. create_images_grid_by_rows images gap max_rows (Some a) s = Some (Inl e, s')"
    using b [of images gap "(int (length images) + max_rows - 1) div max_rows" max_rows s]
    by (simp add: create_images_grid_by_rows_def)
  show "\<forall>g s2. create_images_grid_by_rows images gap max_rows None s = Some (Inr g, s2) \<longrightarrow>
         create_images_grid_by_rows images gap max_rows (Some a) s =
           Some (Inl (ValueError ''Column text or row text is empty''), s2)"
    using b [of images gap "(int (length images) + max_rows - 1) div max_rows" max_rows s]
    by (simp add: create_images_grid_by_rows_def)
next
  assume "column_texts a \<noteq> [] \<and> row_texts a \<noteq> []"
  then have n: "column_texts a \<noteq> []" "row_texts a \<noteq> []" by simp_all
  show "\<forall>s'. create_images_grid_by_columns images gap max_columns (Some a) s \<noteq>
              Some (Inl (ValueError ''Column text or row text is empty''), s')"
    using builder_labels_present [OF n]
    by (simp add: create_images_grid_by_columns_def)
  show "\<forall>s'. create_images_grid_by_rows images gap max_rows (Some a) s \<noteq>
              Some (Inl (ValueError ''Column text or row text is empty''), s')"
    using builder_labels_present [OF n]
    by (simp add: create_images_grid_by_rows_def)
qed

theorem empty_labels_rejected_witness:
  "column_texts no_labels = [] \<and>
   (\<exists>s2. create_images_grid_by_columns [0, 1, 2, 3] 2 2 None four_tiles = Some (Inr 4, s2) \<and>
         create_images_grid_by_columns [0, 1, 2, 3] 2 2 (Some no_labels) four_tiles =
           Some (Inl (ValueError ''Column text or row text is empty''), s2)) \<and>
   column_texts two_labels \<noteq> [] \<and> row_texts two_labels \<noteq> [] \<and>
   create_images_grid_by_columns [0, 1, 2, 3] 2 2 (Some two_labels) four_tiles \<noteq>
     Some (Inl (ValueError ''Column text or row text is empty''), four_tiles)"
proof -
  have e: "column_texts no_labels = []" by (simp add: no_labels_def)
  have n: "column_texts two_labels \<noteq> []" "row_texts two_labels \<noteq> []" by (simp_all add: two_labels_def)
  obtain s2 where p: "create_images_grid [0, 1, 2, 3] 2 2 2 None four_tiles = Some (Inr 4, s2)"
    using create_images_grid_plain [of "[0, 1, 2, 3]" 2 four_tiles 2 2] by auto
  then have p': "create_images_grid_by_columns [0, 1, 2, 3] 2 2 None four_tiles = Some (Inr 4, s2)"
    by (simp add: create_images_grid_by_columns_def)
  from empty_labels_rejected [of no_labels "[0, 1, 2, 3]" 2 2 four_tiles 2] e p'
  have "create_images_grid_by_columns [0, 1, 2, 3] 2 2 (Some no_labels) four_tiles =
           Some (Inl (ValueError ''Column text or row text is empty''), s2)"
    by simp
  moreover from empty_labels_rejected [of two_labels "[0, 1, 2, 3]" 2 2 four_tiles 2] n
  have "create_images_grid_by_columns [0, 1, 2, 3] 2 2 (Some two_labels) four_tiles \<noteq>
     Some (Inl (ValueError ''Column text or row text is empty''), four_tiles)"
    by simp
  ultimately show ?thesis using e n p' by blast
qed


section \<open>A run of the annotation stage\<close>

lemma new_accepted:
  "Image_new_accepts s sz \<Longrightarrow>
   Image_new sz c s =
   (Inr (length (heap s)), s\<lparr>heap := heap s @ [\<lparr>im_size = sz, im_px = (\<lambda>x y. c)\<rparr>],
              calls := calls s @ [New (length (heap s)) sz c]\<rparr>)"
  by (simp add: Image_new_accepts_def new_ok)

text \<open>With a font size that is an \<^verbatim>\<open>int\<close> the margin and the two paddings are \<^verbatim>\<open>int\<close>s.\<close>

lemma paddings_int:
  assumes "font_size fnt = PyInt fs"
  shows "margin_of fnt = PyInt (fs div 2)"
    and "left_padding_of fnt rtexts = PyInt (py_int (py_max (map (getlength fnt) rtexts)) + 2 * (fs div 2))"
    and "top_padding_of fnt = PyInt (fs + 2 * (fs div 2))"
  using assms by (simp_all add: margin_of_def left_padding_of_def top_padding_of_def)

text \<open>With a font size that is a \<^verbatim>\<open>float\<close> they are \<^verbatim>\<open>float\<close>s, and the stage raises.\<close>

lemma float_font_raises:
  assumes "font_size fnt = PyFloat q" and "ctexts \<noteq> []" and "rtexts \<noteq> []"
  shows "create_grid_annotations gi ctexts rtexts fnt s = Some (Inl TypeError, s)"
  using assms
  by (simp add: create_grid_annotations_def margin_of_def left_padding_of_def top_padding_of_def)

lemma create_grid_annotations_run:
  assumes "ctexts \<noteq> []" and "rtexts \<noteq> []"
    and "gi_one_image_size gi = (tw, th)" and "gi_gap gi = gap"
    and "im_size (heap s ! gi_image gi) = (tw * mc + (mc - 1) * gap, th * mr + (mr - 1) * gap)"
    and "1 \<le> tw" and "1 \<le> th" and "0 \<le> gap" and "1 \<le> mc" and "1 \<le> mr"
    and "gi_image gi < length (heap s)"
    and "left_padding_of fnt rtexts = PyInt lp" and "top_padding_of fnt = PyInt tp"
    and "Image_new_accepts s (tw * mc + (mc - 1) * gap + lp, th * mr + (mr - 1) * gap + tp)"
  shows "create_grid_annotations gi ctexts rtexts fnt s =
     Some (Inr (length (heap s)),
       snd (counted_bands (nat mr) 0 (th + gap) \<lparr>draw_image = length (heap s), draw_font = fnt\<rparr> rtexts 0
              (0, tp, lp, tp + th)
         (snd (counted_bands (nat mc) (tw + gap) 0 \<lparr>draw_image = length (heap s), draw_font = fnt\<rparr> ctexts 0
              (lp, 0, lp + tw, tp)
           (paste (length (heap s)) (gi_image gi) (lp, tp)
              (snd (Image_new (tw * mc + (mc - 1) * gap + lp,
                               th * mr + (mr - 1) * gap + tp) white s)))))))"
proof -
  define W where "W = tw * mc + (mc - 1) * gap"
  define H where "H = th * mr + (mr - 1) * gap"
  define draw where "draw = \<lparr>draw_image = length (heap s), draw_font = fnt\<rparr>"
  define s1 where "s1 = snd (Image_new (W + lp, H + tp) white s)"
  define s2 where "s2 = paste (length (heap s)) (gi_image gi) (lp, tp) s1"
  define s3 where "s3 = snd (counted_bands (nat mc) (tw + gap) 0 draw ctexts 0 (lp, 0, lp + tw, tp) s2)"
  have acc: "Image_new_accepts s (W + lp, H + tp)" using assms(14) by (simp add: W_def H_def)
  have new: "Image_new (W + lp, H + tp) white s = (Inr (length (heap s)), s1)"
    using new_accepted [OF acc] by (simp add: s1_def)
  have h1: "heap s1 = heap s @ [\<lparr>im_size = (W + lp, H + tp), im_px = (\<lambda>x y. white)\<rparr>]"
    using new_accepted [OF acc] by (simp add: s1_def)
  have g1: "heap s1 ! gi_image gi = heap s ! gi_image gi"
    using assms(11) by (simp add: h1 nth_append)
  have pl: "paste_image_to_lower_left_corner (length (heap s)) (gi_image gi) s1 = s2"
    using assms(5,11) by (simp add: paste_image_to_lower_left_corner_def s2_def h1 nth_append W_def H_def)
  have sz2: "im_size (heap s2 ! gi_image gi) = (W, H)"
    using assms(5) by (simp add: s2_def g1 W_def H_def)
  have st: "0 < fst (gi_one_image_size gi) + gi_gap gi" "0 < snd (gi_one_image_size gi) + gi_gap gi"
    using assms by simp_all
  have bc: "fst (im_size (heap s2 ! gi_image gi)) + lp + gi_gap gi
              = lp + int (nat mc) * (fst (gi_one_image_size gi) + gi_gap gi)"
    using assms(3,4,9) by (simp add: sz2 W_def algebra_simps)
  have c: "draw_column_text draw ctexts gi lp tp s2 = Some s3"
    using draw_column_loop_counted [OF st(1) bc, of draw ctexts 0 0 "lp + tw" tp] assms(3,4)
    by (simp add: draw_column_text_def s3_def)
  have sz3: "im_size (heap s3 ! gi_image gi) = (W, H)"
    by (simp add: s3_def size_counted_bands sz2)
  have br: "snd (im_size (heap s3 ! gi_image gi)) + tp + gi_gap gi
              = tp + int (nat mr) * (snd (gi_one_image_size gi) + gi_gap gi)"
    using assms(3,4,10) by (simp add: sz3 H_def algebra_simps)
  have r: "draw_row_text draw rtexts gi lp tp s3 =
      Some (snd (counted_bands (nat mr) 0 (th + gap) draw rtexts 0 (0, tp, lp, tp + th) s3))"
    using draw_row_loop_counted [OF st(2) br, of draw rtexts 0 0 lp "tp + th"] assms(3,4)
    by (simp add: draw_row_text_def)
  have "create_grid_annotations gi ctexts rtexts fnt s =
      Some (Inr (length (heap s)), snd (counted_bands (nat mr) 0 (th + gap) draw rtexts 0 (0, tp, lp, tp + th) s3))"
    using assms(1,2,5,12,13) new pl c r
    by (simp add: create_grid_annotations_def Let_def
        W_def [symmetric] H_def [symmetric] draw_def [symmetric])
  then show ?thesis
    by (simp add: s3_def s2_def s1_def draw_def W_def H_def)
qed

section \<open>The paddings, and what a label may overwrite\<close>

lemma py_max_Max: "xs \<noteq> [] \<Longrightarrow> py_max xs = Max (set xs)"
proof (cases xs)
  case Nil
  assume "xs \<noteq> []"
  then show ?thesis using Nil by simp
next
  case (Cons x ys)
  have "foldl max a ys = fold max ys a" for a :: rat
    by (induction ys arbitrary: a) (simp_all add: max.commute)
  then show ?thesis using Cons Max.set_eq_fold [of x ys] by simp
qed

lemma half_floor: "fs div 2 = \<lfloor>(of_int fs :: rat) / 2\<rfloor>" for fs :: int
  using floor_divide_of_int_eq [of fs 2, where ?'a = rat] by simp

lemma region_draw_text:
  assumes "clear_of_grid (draw_font draw) lp tp (Text (draw_image draw) pos txt fill)"
    and "lp \<le> x" and "tp \<le> y"
  shows "im_px (heap (draw_text draw pos txt fill s) ! r) x y = im_px (heap s ! r) x y"
proof (cases "r = draw_image draw \<and> r < length (heap s)")
  case True
  then show ?thesis using assms by (simp add: draw_text_def)
next
  case False
  then show ?thesis
    by (cases "r = draw_image draw") (simp_all add: draw_text_def list_update_beyond)
qed

lemma region_draw_text_by_xy:
  assumes "\<forall>c \<in> set (drop (length (calls s)) (calls (snd (draw_text_by_xy xy i draw texts s)))).
             clear_of_grid (draw_font draw) lp tp c"
    and "lp \<le> x" and "tp \<le> y"
  shows "im_px (heap (snd (draw_text_by_xy xy i draw texts s)) ! r) x y = im_px (heap s ! r) x y"
proof (cases "py_index texts i")
  case (Inl e)
  then show ?thesis by (simp add: draw_text_by_xy_def)
next
  case (Inr lbl)
  obtain a b c d where xy: "xy = (a, b, c, d)" by (cases xy) auto
  obtain l t w h where bb: "textbbox (draw_font draw) lbl = (l, t, w, h)"
    by (cases "textbbox (draw_font draw) lbl") auto
  have e: "snd (draw_text_by_xy xy i draw texts s) =
      draw_text draw (of_int (c - w + a) / 2, of_int (d - h + b) / 2) lbl black s"
    using Inr by (simp add: draw_text_by_xy_def draw_center_text_def xy bb)
  have "clear_of_grid (draw_font draw) lp tp
          (Text (draw_image draw) (of_int (c - w + a) / 2, of_int (d - h + b) / 2) lbl black)"
    using assms(1) unfolding e by simp
  from region_draw_text [OF this assms(2,3)] show ?thesis unfolding e .
qed

lemma calls_draw_text_by_xy: "\<exists>X. calls (snd (draw_text_by_xy xy i draw texts s)) = calls s @ X"
  by (simp add: draw_text_by_xy_def calls_draw_center_text split: sum.splits)

lemma calls_counted_bands_ex:
  "\<exists>X. calls (snd (counted_bands k dx dy draw texts i (x0, y0, x1, y1) s)) = calls s @ X"
proof (induction k arbitrary: i x0 y0 x1 y1 s)
  case 0
  show ?case by simp
next
  case (Suc k)
  obtain X1 where x1: "calls (snd (draw_text_by_xy (x0, y0, x1, y1) i draw texts s)) = calls s @ X1"
    using calls_draw_text_by_xy by blast
  obtain X2 where "calls (snd (counted_bands k dx dy draw texts (i + 1) (x0 + dx, y0 + dy, x1 + dx, y1 + dy)
      (snd (draw_text_by_xy (x0, y0, x1, y1) i draw texts s)))) =
      calls (snd (draw_text_by_xy (x0, y0, x1, y1) i draw texts s)) @ X2"
    using Suc by blast
  then show ?case unfolding counted_bands_Suc x1 by simp
qed

lemma region_counted_bands:
  assumes "lp \<le> x" and "tp \<le> y"
  shows "\<forall>c \<in> set (drop (length (calls s))
                     (calls (snd (counted_bands k dx dy draw texts i (x0, y0, x1, y1) s)))).
             clear_of_grid (draw_font draw) lp tp c \<Longrightarrow>
         im_px (heap (snd (counted_bands k dx dy draw texts i (x0, y0, x1, y1) s)) ! r) x y
           = im_px (heap s ! r) x y"
proof (induction k arbitrary: i x0 y0 x1 y1 s)
  case 0
  show ?case by simp
next
  case (Suc k)
  let ?s1 = "snd (draw_text_by_xy (x0, y0, x1, y1) i draw texts s)"
  let ?f = "snd (counted_bands k dx dy draw texts (i + 1) (x0 + dx, y0 + dy, x1 + dx, y1 + dy) ?s1)"
  obtain X1 where x1: "calls ?s1 = calls s @ X1" using calls_draw_text_by_xy by blast
  obtain X2 where x2: "calls ?f = calls ?s1 @ X2" using calls_counted_bands_ex by blast
  have all: "\<forall>c \<in> set (X1 @ X2). clear_of_grid (draw_font draw) lp tp c"
    using Suc.prems unfolding counted_bands_Suc x2 x1 by simp
  have a: "im_px (heap ?f ! r) x y = im_px (heap ?s1 ! r) x y"
    using all by (intro Suc.IH) (simp add: x2)
  have b: "im_px (heap ?s1 ! r) x y = im_px (heap s ! r) x y"
    using all by (intro region_draw_text_by_xy [where lp = lp and tp = tp] assms) (simp add: x1)
  show ?case unfolding counted_bands_Suc using a b by simp
qed

lemma annotated_state:
  assumes "ctexts \<noteq> []" and "rtexts \<noteq> []"
    and "gi_one_image_size gi = (tw, th)" and "gi_gap gi = gap"
    and "im_size (heap s ! gi_image gi) = (tw * mc + (mc - 1) * gap, th * mr + (mr - 1) * gap)"
    and "1 \<le> tw" and "1 \<le> th" and "0 \<le> gap" and "1 \<le> mc" and "1 \<le> mr"
    and "gi_image gi < length (heap s)"
    and "left_padding_of fnt rtexts = PyInt lp" and "top_padding_of fnt = PyInt tp"
    and "Image_new_accepts s (tw * mc + (mc - 1) * gap + lp, th * mr + (mr - 1) * gap + tp)"
  shows "\<exists>s'. create_grid_annotations gi ctexts rtexts fnt s = Some (Inr (length (heap s)), s') \<and>
      im_size (heap s' ! length (heap s)) =
        (tw * mc + (mc - 1) * gap + lp, th * mr + (mr - 1) * gap + tp) \<and>
      heap s' ! gi_image gi = heap s ! gi_image gi \<and>
      calls s' = calls s @
        New (length (heap s)) (tw * mc + (mc - 1) * gap + lp, th * mr + (mr - 1) * gap + tp) white #
        Paste (length (heap s)) (gi_image gi) (lp, tp) #
        (map (\<lambda>j. label_call \<lparr>draw_image = length (heap s), draw_font = fnt\<rparr>
                     (lp + int j * (tw + gap), 0, lp + tw + int j * (tw + gap), tp) (ctexts ! j))
           [0..<min (length ctexts) (nat mc)] @
         map (\<lambda>j. label_call \<lparr>draw_image = length (heap s), draw_font = fnt\<rparr>
                     (0, tp + int j * (th + gap), lp, tp + th + int j * (th + gap)) (rtexts ! j))
           [0..<min (length rtexts) (nat mr)]) \<and>
      (\<forall>u v. in_bounds (heap s ! gi_image gi) u v \<longrightarrow>
         im_px (heap (paste_image_to_lower_left_corner (length (heap s)) (gi_image gi)
                        (snd (Image_new (tw * mc + (mc - 1) * gap + lp,
                                         th * mr + (mr - 1) * gap + tp) white s)))
                  ! length (heap s)) (lp + u) (tp + v)
           = im_px (heap s ! gi_image gi) u v) \<and>
      ((\<forall>c \<in> set (map (\<lambda>j. label_call \<lparr>draw_image = length (heap s), draw_font = fnt\<rparr>
                     (lp + int j * (tw + gap), 0, lp + tw + int j * (tw + gap), tp) (ctexts ! j))
           [0..<min (length ctexts) (nat mc)] @
         map (\<lambda>j. label_call \<lparr>draw_image = length (heap s), draw_font = fnt\<rparr>
                     (0, tp + int j * (th + gap), lp, tp + th + int j * (th + gap)) (rtexts ! j))
           [0..<min (length rtexts) (nat mr)]). clear_of_grid fnt lp tp c) \<longrightarrow>
        (\<forall>u v. in_bounds (heap s ! gi_image gi) u v \<longrightarrow>
           im_px (heap s' ! length (heap s)) (lp + u) (tp + v) = im_px (heap s ! gi_image gi) u v))"
proof -
  define W where "W = tw * mc + (mc - 1) * gap"
  define H where "H = th * mr + (mr - 1) * gap"
  define c where "c = length (heap s)"
  define draw where "draw = \<lparr>draw_image = c, draw_font = fnt\<rparr>"
  define s1 where "s1 = snd (Image_new (W + lp, H + tp) white s)"
  define s2 where "s2 = paste c (gi_image gi) (lp, tp) s1"
  define s3 where "s3 = snd (counted_bands (nat mc) (tw + gap) 0 draw ctexts 0 (lp, 0, lp + tw, tp) s2)"
  define s4 where "s4 = snd (counted_bands (nat mr) 0 (th + gap) draw rtexts 0 (0, tp, lp, tp + th) s3)"
  define X where "X = map (\<lambda>j. label_call draw
                     (lp + int j * (tw + gap), 0, lp + tw + int j * (tw + gap), tp) (ctexts ! j))
           [0..<min (length ctexts) (nat mc)]"
  define Y where "Y = map (\<lambda>j. label_call draw
                     (0, tp + int j * (th + gap), lp, tp + th + int j * (th + gap)) (rtexts ! j))
           [0..<min (length rtexts) (nat mr)]"
  have run: "create_grid_annotations gi ctexts rtexts fnt s = Some (Inr c, s4)"
    using create_grid_annotations_run [OF assms]
    by (simp add: s4_def s3_def s2_def s1_def draw_def c_def W_def H_def)
  have acc: "Image_new_accepts s (W + lp, H + tp)" using assms(14) by (simp add: W_def H_def)
  have h1: "heap s1 = heap s @ [\<lparr>im_size = (W + lp, H + tp), im_px = (\<lambda>x y. white)\<rparr>]"
    and c1: "calls s1 = calls s @ [New c (W + lp, H + tp) white]"
    using new_accepted [OF acc] by (simp_all add: s1_def c_def)
  have gc: "gi_image gi \<noteq> c" using assms(11) by (simp add: c_def)
  have g1: "heap s1 ! gi_image gi = heap s ! gi_image gi"
    using assms(11) by (simp add: h1 nth_append)
  have sz1: "im_size (heap s1 ! c) = (W + lp, H + tp)" by (simp add: h1 c_def)
  have pl: "paste_image_to_lower_left_corner c (gi_image gi) s1 = s2"
    using assms(5,11) by (simp add: paste_image_to_lower_left_corner_def s2_def h1 nth_append W_def H_def c_def)
  have g2: "heap s2 ! gi_image gi = heap s ! gi_image gi"
    using gc g1 by (simp add: s2_def frame_paste)
  have g3: "heap s3 ! gi_image gi = heap s ! gi_image gi"
    using gc g2 by (simp add: s3_def frame_counted_bands draw_def)
  have g4: "heap s4 ! gi_image gi = heap s ! gi_image gi"
    using gc g3 by (simp add: s4_def frame_counted_bands draw_def)
  have sz4: "im_size (heap s4 ! c) = (W + lp, H + tp)"
    by (simp add: s4_def s3_def s2_def size_counted_bands sz1)
  have X: "calls s3 = calls s2 @ X"
    unfolding s3_def X_def
    using calls_counted_bands [of "nat mc" "tw + gap" 0 draw ctexts 0 lp 0 "lp + tw" tp s2]
    by simp
  have Y: "calls s4 = calls s3 @ Y"
    unfolding s4_def Y_def
    using calls_counted_bands [of "nat mr" 0 "th + gap" draw rtexts 0 0 tp lp "tp + th" s3]
    by simp
  have c4: "calls s4 = calls s @ New c (W + lp, H + tp) white # Paste c (gi_image gi) (lp, tp) # (X @ Y)"
    by (simp add: Y X s2_def c1)
  have px2: "im_px (heap s2 ! c) (lp + u) (tp + v) = im_px (heap s ! gi_image gi) u v"
    if "in_bounds (heap s ! gi_image gi) u v" for u v
    using that assms(11) by (simp add: s2_def paste_def h1 c_def nth_append)
  have reg: "\<forall>u v. in_bounds (heap s ! gi_image gi) u v \<longrightarrow>
           im_px (heap s4 ! c) (lp + u) (tp + v) = im_px (heap s ! gi_image gi) u v"
    if cl: "\<forall>k \<in> set (X @ Y). clear_of_grid fnt lp tp k"
  proof (intro allI impI)
    fix u v assume b: "in_bounds (heap s ! gi_image gi) u v"
    then have uv: "lp \<le> lp + u" "tp \<le> tp + v" by (simp_all add: in_bounds_def)
    have df: "draw_font draw = fnt" by (simp add: draw_def)
    have "im_px (heap s4 ! c) (lp + u) (tp + v) = im_px (heap s3 ! c) (lp + u) (tp + v)"
      unfolding s4_def
      by (rule region_counted_bands [OF uv]) (use cl Y in \<open>simp add: s4_def [symmetric] df\<close>)
    also have "\<dots> = im_px (heap s2 ! c) (lp + u) (tp + v)"
      unfolding s3_def
      by (rule region_counted_bands [OF uv]) (use cl X in \<open>simp add: s3_def [symmetric] df\<close>)
    finally show "im_px (heap s4 ! c) (lp + u) (tp + v) = im_px (heap s ! gi_image gi) u v"
      using px2 [OF b] by simp
  qed
  have after: "\<forall>u v. in_bounds (heap s ! gi_image gi) u v \<longrightarrow>
      im_px (heap (paste_image_to_lower_left_corner c (gi_image gi) s1) ! c) (lp + u) (tp + v)
        = im_px (heap s ! gi_image gi) u v"
    unfolding pl using px2 by blast
  show ?thesis
    using run sz4 g4 c4 after reg
    unfolding c_def W_def H_def X_def Y_def draw_def s1_def by blast
qed

section \<open>The annotated canvas\<close>

lemma floor_25_2: "\<lfloor>(25 :: rat) / 2\<rfloor> = 12"
  by (rule floor_unique) simp_all

lemma test_font_paddings:
  "left_padding_of test_font [''ab'', ''c''] = PyInt 22" "top_padding_of test_font = PyInt 20"
  "margin_of test_font = PyInt 5"
  by (simp_all add: left_padding_of_def top_padding_of_def margin_of_def test_font_def py_int_def floor_25_2)

lemma info_2x2_simps:
  "gi_one_image_size info_2x2 = (10, 10)" "gi_gap info_2x2 = 2" "gi_image info_2x2 = 0"
  "length (heap grid_2x2) = 2" "calls grid_2x2 = []"
  "im_size (heap grid_2x2 ! 0) = (22, 22)"
  "im_px (heap grid_2x2 ! 0) x y = RGB (nat x) (nat y) 0"
  "Image_new_accepts grid_2x2 (44, 42)"
  by (simp_all add: info_2x2_def grid_2x2_def Image_new_accepts_def)

text \<open>
  C5, amended. For label lists that are not empty and a font whose size is an \<^verbatim>\<open>int\<close>, on
  a grid of \<open>mc\<close> by \<open>mr\<close> tiles: the margin is the floor of half the font size, the left
  padding is the widest row label \<^emph>\<open>truncated to an integer\<close> plus twice the margin, the top
  padding is the font size plus twice the margin, and, when \<^verbatim>\<open>Image.new\<close> accepts that
  size, the annotated canvas is a new image, allocated white, of the width of the grid
  plus the left padding and the height of the grid plus the top padding.
\<close>

theorem annotated_canvas_size:
  assumes "ctexts \<noteq> []" and "rtexts \<noteq> []"
    and "gi_one_image_size gi = (tw, th)" and "gi_gap gi = gap"
    and "im_size (heap s ! gi_image gi) = (tw * mc + (mc - 1) * gap, th * mr + (mr - 1) * gap)"
    and "1 \<le> tw" and "1 \<le> th" and "0 \<le> gap" and "1 \<le> mc" and "1 \<le> mr"
    and "gi_image gi < length (heap s)"
    and "font_size fnt = PyInt fontSize"
    and "margin = \<lfloor>(of_int fontSize :: rat) / 2\<rfloor>"
    and "leftPadding = py_int (Max (set (map (getlength fnt) rtexts))) + 2 * margin"
    and "topPadding = fontSize + 2 * margin"
    and "Image_new_accepts s (fst (im_size (heap s ! gi_image gi)) + leftPadding,
                              snd (im_size (heap s ! gi_image gi)) + topPadding)"
  shows "margin_of fnt = PyInt margin \<and>
         left_padding_of fnt rtexts = PyInt leftPadding \<and>
         top_padding_of fnt = PyInt topPadding \<and>
         (\<exists>s' cs. create_grid_annotations gi ctexts rtexts fnt s = Some (Inr (length (heap s)), s') \<and>
            im_size (heap s' ! length (heap s)) =
              (fst (im_size (heap s ! gi_image gi)) + leftPadding,
               snd (im_size (heap s ! gi_image gi)) + topPadding) \<and>
            calls s' = calls s @
              New (length (heap s))
                (fst (im_size (heap s ! gi_image gi)) + leftPadding,
                 snd (im_size (heap s ! gi_image gi)) + topPadding) white # cs) \<and>
         (\<forall>x y. im_px (heap (snd (Image_new
                      (fst (im_size (heap s ! gi_image gi)) + leftPadding,
                       snd (im_size (heap s ! gi_image gi)) + topPadding) white s))
                    ! length (heap s)) x y = white)"
proof -
  have m: "margin = fontSize div 2" using assms(13) half_floor [of fontSize] by simp
  have lp: "left_padding_of fnt rtexts = PyInt leftPadding"
    using paddings_int(2) [OF assms(12), of rtexts] assms(2,14) py_max_Max [of "map (getlength fnt) rtexts"]
    by (simp add: m)
  have tp: "top_padding_of fnt = PyInt topPadding"
    using paddings_int(3) [OF assms(12)] assms(15) by (simp add: m)
  have mg: "margin_of fnt = PyInt margin"
    using paddings_int(1) [OF assms(12)] by (simp add: m)
  have acc: "Image_new_accepts s (tw * mc + (mc - 1) * gap + leftPadding,
                                 th * mr + (mr - 1) * gap + topPadding)"
    using assms(16) unfolding assms(5) by simp
  from annotated_state [OF assms(1-11) lp tp acc] obtain t cs where
    t: "create_grid_annotations gi ctexts rtexts fnt s = Some (Inr (length (heap s)), t)"
      "im_size (heap t ! length (heap s)) =
        (tw * mc + (mc - 1) * gap + leftPadding, th * mr + (mr - 1) * gap + topPadding)"
      "calls t = calls s @
        New (length (heap s))
          (tw * mc + (mc - 1) * gap + leftPadding, th * mr + (mr - 1) * gap + topPadding) white #
        Paste (length (heap s)) (gi_image gi) (leftPadding, topPadding) # cs"
    by (elim exE conjE) blast
  have run: "\<exists>s' cs. create_grid_annotations gi ctexts rtexts fnt s = Some (Inr (length (heap s)), s') \<and>
            im_size (heap s' ! length (heap s)) =
              (fst (im_size (heap s ! gi_image gi)) + leftPadding,
               snd (im_size (heap s ! gi_image gi)) + topPadding) \<and>
            calls s' = calls s @
              New (length (heap s))
                (fst (im_size (heap s ! gi_image gi)) + leftPadding,
                 snd (im_size (heap s ! gi_image gi)) + topPadding) white # cs"
    unfolding assms(5) using t by (intro exI [of _ t] exI [of _ "Paste (length (heap s)) (gi_image gi) (leftPadding, topPadding) # cs"]) simp
  have wh: "\<forall>x y. im_px (heap (snd (Image_new
                      (fst (im_size (heap s ! gi_image gi)) + leftPadding,
                       snd (im_size (heap s ! gi_image gi)) + topPadding) white s))
                    ! length (heap s)) x y = white"
    using new_accepted [OF assms(16), of white] by simp
  show ?thesis using mg lp tp run wh by blast
qed

theorem annotated_canvas_size_witness:
  "font_size test_font = PyInt 10 \<and>
   left_padding_of test_font [''ab'', ''c''] = PyInt 22 \<and> top_padding_of test_font = PyInt 20 \<and>
   Image_new_accepts grid_2x2 (44, 42) \<and>
   (\<exists>s' cs. create_grid_annotations info_2x2 [''a'', ''b''] [''ab'', ''c''] test_font grid_2x2
              = Some (Inr 2, s') \<and>
            im_size (heap s' ! 2) = (44, 42) \<and> calls s' = New 2 (44, 42) white # cs)"
proof -
  have f: "font_size test_font = PyInt 10" by (simp add: test_font_def)
  have m: "(5 :: int) = \<lfloor>(of_int 10 :: rat) / 2\<rfloor>" by simp
  have l: "(22 :: int) = py_int (Max (set (map (getlength test_font) [''ab'', ''c'']))) + 2 * 5"
    by (simp add: test_font_def py_int_def floor_25_2)
  have t: "(20 :: int) = 10 + 2 * 5" by simp
  from annotated_canvas_size [where ctexts = "[''a'', ''b'']" and rtexts = "[''ab'', ''c'']"
      and gi = info_2x2 and tw = 10 and th = 10 and gap = 2 and s = grid_2x2 and mc = 2 and mr = 2
      and fnt = test_font and fontSize = 10 and margin = 5 and leftPadding = 22 and topPadding = 20,
      OF _ _ _ _ _ _ _ _ _ _ _ f m l t]
  show ?thesis
    by (simp add: info_2x2_simps f)
qed

text \<open>
  The claim without the truncation fails: a row label 12.5 pixels wide at font size 10
  gives a canvas 44 pixels wide on a grid of 22, not 44.5.
\<close>

theorem annotated_width_counterexample:
  "returned_size (create_grid_annotations info_2x2 [''a'', ''b''] [''ab'', ''c''] test_font grid_2x2)
     = Some (44, 42) \<and>
   (of_int 44 :: rat) \<noteq>
     of_int (fst (im_size (heap grid_2x2 ! gi_image info_2x2))) +
       (Max (set (map (getlength test_font) [''ab'', ''c''])) +
        2 * of_int \<lfloor>py_val (font_size test_font) / 2\<rfloor>)"
proof -
  have "\<exists>s'. create_grid_annotations info_2x2 [''a'', ''b''] [''ab'', ''c''] test_font grid_2x2
              = Some (Inr 2, s') \<and> im_size (heap s' ! 2) = (44, 42)"
    using annotated_state [where ctexts = "[''a'', ''b'']" and rtexts = "[''ab'', ''c'']"
      and gi = info_2x2 and tw = 10 and th = 10 and gap = 2 and s = grid_2x2 and mc = 2 and mr = 2
      and fnt = test_font and lp = 22 and tp = 20]
    by (simp add: test_font_paddings info_2x2_simps) blast
  then have "returned_size (create_grid_annotations info_2x2 [''a'', ''b''] [''ab'', ''c''] test_font grid_2x2)
     = Some (44, 42)"
    by (auto simp: returned_size_def)
  moreover have "Max (set (map (getlength test_font) [''ab'', ''c''])) = 25 / 2"
    by (simp add: test_font_def)
  ultimately show ?thesis by (simp add: info_2x2_simps test_font_def)
qed

text \<open>
  C6, amended. On a grid of \<open>mc\<close> by \<open>mr\<close> tiles, with label lists that are not empty, a
  font size that is an \<^verbatim>\<open>int\<close> and a canvas size that \<^verbatim>\<open>Image.new\<close> accepts: the grid
  is pasted on the new canvas at the offset \<open>(leftPadding, topPadding)\<close>, which puts its
  lower right corner on that of the canvas; the grid image itself is not changed; right
  after the paste the grid region of the canvas is equal, pixel for pixel, to the grid.
  The labels are drawn after the paste and are not clipped: in the returned canvas the
  grid region is equal to the grid when no label drawn is painted in it.
\<close>

theorem grid_kept_in_annotated_canvas:
  assumes "ctexts \<noteq> []" and "rtexts \<noteq> []"
    and "gi_one_image_size gi = (tw, th)" and "gi_gap gi = gap"
    and "im_size (heap s ! gi_image gi) = (tw * mc + (mc - 1) * gap, th * mr + (mr - 1) * gap)"
    and "1 \<le> tw" and "1 \<le> th" and "0 \<le> gap" and "1 \<le> mc" and "1 \<le> mr"
    and "gi_image gi < length (heap s)"
    and "font_size fnt = PyInt fontSize"
    and "leftPadding = py_int (py_max (map (getlength fnt) rtexts)) + 2 * (fontSize div 2)"
    and "topPadding = fontSize + 2 * (fontSize div 2)"
    and "Image_new_accepts s (fst (im_size (heap s ! gi_image gi)) + leftPadding,
                              snd (im_size (heap s ! gi_image gi)) + topPadding)"
    and "canvas = length (heap s)"
  shows "\<exists>s'. create_grid_annotations gi ctexts rtexts fnt s = Some (Inr canvas, s') \<and>
      take 2 (drop (length (calls s)) (calls s')) =
        [New canvas (fst (im_size (heap s ! gi_image gi)) + leftPadding,
                     snd (im_size (heap s ! gi_image gi)) + topPadding) white,
         Paste canvas (gi_image gi) (leftPadding, topPadding)] \<and>
      im_size (heap s' ! canvas) =
        (leftPadding + fst (im_size (heap s ! gi_image gi)),
         topPadding + snd (im_size (heap s ! gi_image gi))) \<and>
      heap s' ! gi_image gi = heap s ! gi_image gi \<and>
      (\<forall>u v. in_bounds (heap s ! gi_image gi) u v \<longrightarrow>
         im_px (heap (paste_image_to_lower_left_corner canvas (gi_image gi)
                        (snd (Image_new (fst (im_size (heap s ! gi_image gi)) + leftPadding,
                                         snd (im_size (heap s ! gi_image gi)) + topPadding) white s)))
                  ! canvas) (leftPadding + u) (topPadding + v)
           = im_px (heap s ! gi_image gi) u v) \<and>
      ((\<forall>c \<in> set (drop (length (calls s) + 2) (calls s')).
           clear_of_grid fnt leftPadding topPadding c) \<longrightarrow>
        (\<forall>u v. in_bounds (heap s ! gi_image gi) u v \<longrightarrow>
           im_px (heap s' ! canvas) (leftPadding + u) (topPadding + v)
             = im_px (heap s ! gi_image gi) u v))"
proof -
  have lp: "left_padding_of fnt rtexts = PyInt leftPadding"
    using paddings_int(2) [OF assms(12), of rtexts] assms(13) by simp
  have tp: "top_padding_of fnt = PyInt topPadding"
    using paddings_int(3) [OF assms(12)] assms(14) by simp
  have acc: "Image_new_accepts s (tw * mc + (mc - 1) * gap + leftPadding,
                                 th * mr + (mr - 1) * gap + topPadding)"
    using assms(15) unfolding assms(5) by simp
  define cs where "cs =
        map (\<lambda>j. label_call \<lparr>draw_image = length (heap s), draw_font = fnt\<rparr>
                     (leftPadding + int j * (tw + gap), 0, leftPadding + tw + int j * (tw + gap), topPadding)
                     (ctexts ! j))
           [0..<min (length ctexts) (nat mc)] @
         map (\<lambda>j. label_call \<lparr>draw_image = length (heap s), draw_font = fnt\<rparr>
                     (0, topPadding + int j * (th + gap), leftPadding, topPadding + th + int j * (th + gap))
                     (rtexts ! j))
           [0..<min (length rtexts) (nat mr)]"
  from annotated_state [OF assms(1-11) lp tp acc] obtain t where
    t: "create_grid_annotations gi ctexts rtexts fnt s = Some (Inr (length (heap s)), t)"
      "im_size (heap t ! length (heap s)) =
        (tw * mc + (mc - 1) * gap + leftPadding, th * mr + (mr - 1) * gap + topPadding)"
      "heap t ! gi_image gi = heap s ! gi_image gi"
      "calls t = calls s @
        New (length (heap s))
          (tw * mc + (mc - 1) * gap + leftPadding, th * mr + (mr - 1) * gap + topPadding) white #
        Paste (length (heap s)) (gi_image gi) (leftPadding, topPadding) # cs"
      "\<forall>u v. in_bounds (heap s ! gi_image gi) u v \<longrightarrow>
         im_px (heap (paste_image_to_lower_left_corner (length (heap s)) (gi_image gi)
                        (snd (Image_new (tw * mc + (mc - 1) * gap + leftPadding,
                                         th * mr + (mr - 1) * gap + topPadding) white s)))
                  ! length (heap s)) (leftPadding + u) (topPadding + v)
           = im_px (heap s ! gi_image gi) u v"
      "(\<forall>c \<in> set cs. clear_of_grid fnt leftPadding topPadding c) \<longrightarrow>
        (\<forall>u v. in_bounds (heap s ! gi_image gi) u v \<longrightarrow>
           im_px (heap t ! length (heap s)) (leftPadding + u) (topPadding + v)
             = im_px (heap s ! gi_image gi) u v)"
    unfolding cs_def by blast
  have d: "drop (length (calls s) + 2) (calls t) = cs" by (simp add: t(4))
  have k: "take 2 (drop (length (calls s)) (calls t)) =
        [New (length (heap s))
          (tw * mc + (mc - 1) * gap + leftPadding, th * mr + (mr - 1) * gap + topPadding) white,
         Paste (length (heap s)) (gi_image gi) (leftPadding, topPadding)]"
    by (simp add: t(4))
  show ?thesis
    unfolding assms(16) assms(5)
    using t(1,2,3,5,6) d k
    by (intro exI [of _ t]) (simp add: add.commute)
qed

lemma annotated_2x2_calls:
  "\<exists>s'. create_grid_annotations info_2x2 [''a'', ''b''] [''ab'', ''c''] test_font grid_2x2
           = Some (Inr 2, s') \<and>
         calls s' = [New 2 (44, 42) white, Paste 2 0 (22, 20),
                     Text 2 (24, 11 / 2) ''a'' black, Text 2 (36, 11 / 2) ''b'' black,
                     Text 2 (5, 41 / 2) ''ab'' black, Text 2 (8, 65 / 2) ''c'' black]"
proof -
  have u: "[0..<2] = [0, 1]" by (simp add: numeral_2_eq_2)
  from annotated_state [where ctexts = "[''a'', ''b'']" and rtexts = "[''ab'', ''c'']"
      and gi = info_2x2 and tw = 10 and th = 10 and gap = 2 and s = grid_2x2 and mc = 2 and mr = 2
      and fnt = test_font and lp = 22 and tp = 20]
  obtain s' where
    "create_grid_annotations info_2x2 [''a'', ''b''] [''ab'', ''c''] test_font grid_2x2 = Some (Inr 2, s')"
    "calls s' = [New 2 (44, 42) white, Paste 2 0 (22, 20),
                     Text 2 (24, 11 / 2) ''a'' black, Text 2 (36, 11 / 2) ''b'' black,
                     Text 2 (5, 41 / 2) ''ab'' black, Text 2 (8, 65 / 2) ''c'' black]"
    by (simp add: test_font_paddings info_2x2_simps u label_call_def) (auto simp: test_font_def)
  then show ?thesis by blast
qed

lemma test_font_clear:
  "clear_of_grid test_font 22 20 (Text 2 (24, 11 / 2) ''a'' black)"
  "clear_of_grid test_font 22 20 (Text 2 (36, 11 / 2) ''b'' black)"
  "clear_of_grid test_font 22 20 (Text 2 (5, 41 / 2) ''ab'' black)"
  "clear_of_grid test_font 22 20 (Text 2 (8, 65 / 2) ''c'' black)"
proof -
  have y: "\<not> (of_int y :: rat) < 29 / 2" if "20 \<le> y" for y :: int
  proof -
    have "(20 :: rat) \<le> of_int y" using that of_int_le_iff [of 20 y, where ?'a = rat] by simp
    then show ?thesis by simp
  qed
  have x: "\<not> (of_int x :: rat) < 17" "\<not> (of_int x :: rat) < 14" if "22 \<le> x" for x :: int
  proof -
    have "(22 :: rat) \<le> of_int x" using that of_int_le_iff [of 22 x, where ?'a = rat] by simp
    then show "\<not> (of_int x :: rat) < 17" "\<not> (of_int x :: rat) < 14" by simp_all
  qed
  show "clear_of_grid test_font 22 20 (Text 2 (24, 11 / 2) ''a'' black)"
    "clear_of_grid test_font 22 20 (Text 2 (36, 11 / 2) ''b'' black)"
    "clear_of_grid test_font 22 20 (Text 2 (5, 41 / 2) ''ab'' black)"
    "clear_of_grid test_font 22 20 (Text 2 (8, 65 / 2) ''c'' black)"
    using x y by (simp_all add: test_font_def)
qed

theorem grid_kept_in_annotated_canvas_witness:
  "\<exists>s'. create_grid_annotations info_2x2 [''a'', ''b''] [''ab'', ''c''] test_font grid_2x2
           = Some (Inr 2, s') \<and>
         take 2 (calls s') = [New 2 (44, 42) white, Paste 2 0 (22, 20)] \<and>
         im_size (heap s' ! 2) = (44, 42) \<and>
         heap s' ! 0 = heap grid_2x2 ! 0 \<and>
         (\<forall>c \<in> set (drop 2 (calls s')). clear_of_grid test_font 22 20 c) \<and>
         im_px (heap s' ! 2) (22 + 3) (20 + 4) = RGB 3 4 0"
proof -
  have f: "font_size test_font = PyInt 10" by (simp add: test_font_def)
  have l: "(22 :: int) = py_int (py_max (map (getlength test_font) [''ab'', ''c''])) + 2 * (10 div 2)"
    by (simp add: test_font_def py_int_def floor_25_2)
  have t: "(20 :: int) = 10 + 2 * (10 div 2)" by simp
  have c: "(2 :: nat) = length (heap grid_2x2)" by (simp add: info_2x2_simps)
  from grid_kept_in_annotated_canvas [where ctexts = "[''a'', ''b'']" and rtexts = "[''ab'', ''c'']"
      and gi = info_2x2 and tw = 10 and th = 10 and gap = 2 and s = grid_2x2 and mc = 2 and mr = 2
      and fnt = test_font and fontSize = 10 and leftPadding = 22 and topPadding = 20 and canvas = 2,
      OF _ _ _ _ _ _ _ _ _ _ _ f l t _ c]
  obtain s' where
    s': "create_grid_annotations info_2x2 [''a'', ''b''] [''ab'', ''c''] test_font grid_2x2 = Some (Inr 2, s')"
      "take 2 (calls s') = [New 2 (44, 42) white, Paste 2 0 (22, 20)]"
      "im_size (heap s' ! 2) = (44, 42)"
      "heap s' ! 0 = heap grid_2x2 ! 0"
      "(\<forall>c \<in> set (drop (Suc (Suc 0)) (calls s')). clear_of_grid test_font 22 20 c) \<longrightarrow>
        (\<forall>u v. in_bounds (heap grid_2x2 ! 0) u v \<longrightarrow>
           im_px (heap s' ! 2) (22 + u) (20 + v) = RGB (nat u) (nat v) 0)"
    by (simp add: info_2x2_simps) blast
  from annotated_2x2_calls s'(1) have cs: "calls s' = [New 2 (44, 42) white, Paste 2 0 (22, 20),
                     Text 2 (24, 11 / 2) ''a'' black, Text 2 (36, 11 / 2) ''b'' black,
                     Text 2 (5, 41 / 2) ''ab'' black, Text 2 (8, 65 / 2) ''c'' black]"
    by auto
  have cl: "\<forall>c \<in> set (drop 2 (calls s')). clear_of_grid test_font 22 20 c"
    unfolding cs using test_font_clear by simp
  have cl': "\<forall>c \<in> set (drop (Suc (Suc 0)) (calls s')). clear_of_grid test_font 22 20 c"
    unfolding cs using test_font_clear by simp
  have b: "in_bounds (heap grid_2x2 ! 0) 3 4" by (simp add: in_bounds_def info_2x2_simps)
  from s'(5) cl' b have "im_px (heap s' ! 2) (22 + 3) (20 + 4) = RGB (nat 3) (nat 4) 0"
    by blast
  then have "im_px (heap s' ! 2) (22 + 3) (20 + 4) = RGB 3 4 0"
    by simp
  then show ?thesis using s'(1-4) cl by blast
qed

lemma tall_font_paddings:
  "left_padding_of tall_font [''ab'', ''c''] = PyInt 22" "top_padding_of tall_font = PyInt 20"
  by (simp_all add: left_padding_of_def top_padding_of_def margin_of_def tall_font_def py_int_def floor_25_2)

lemma px_draw_text_by_xy:
  assumes "0 \<le> i" and "i < int (length texts)" and "draw_image draw < length (heap s)"
    and "textbbox (draw_font draw) (texts ! nat i) = (l, t, w, h)"
  shows "im_px (heap (snd (draw_text_by_xy (a, b, c, d) i draw texts s)) ! draw_image draw) x y =
     render (draw_font draw) (of_int (c - w + a) / 2, of_int (d - h + b) / 2) (texts ! nat i) black
       (im_px (heap s ! draw_image draw)) x y"
  using assms by (simp add: draw_text_by_xy_in draw_center_text_def draw_text_def)

text \<open>
  The claim without the condition fails: with labels 50 pixels high at font size 10 the
  first column label covers the rows 0 to 14 of the grid, and the pixel \<open>(3, 4)\<close> of the
  grid is black in the returned canvas.
\<close>

theorem label_over_grid_counterexample:
  "left_padding_of tall_font [''ab'', ''c''] = PyInt 22 \<and> top_padding_of tall_font = PyInt 20 \<and>
   in_bounds (heap grid_2x2 ! gi_image info_2x2) 3 4 \<and>
   im_px (heap grid_2x2 ! gi_image info_2x2) 3 4 = RGB 3 4 0 \<and>
   returned_px (create_grid_annotations info_2x2 [''a'', ''b''] [''ab'', ''c''] tall_font grid_2x2)
     (22 + 3) (20 + 4) = Some (RGB 0 0 0)"
proof -
  define dr where "dr = \<lparr>draw_image = 2, draw_font = tall_font\<rparr>"
  define s2 where "s2 = paste 2 0 (22, 20) (snd (Image_new (44, 42) white grid_2x2))"
  define a1 where "a1 = snd (draw_text_by_xy (22, 0, 32, 20) 0 dr [''a'', ''b''] s2)"
  define a2 where "a2 = snd (draw_text_by_xy (34, 0, 44, 20) 1 dr [''a'', ''b''] a1)"
  define b1 where "b1 = snd (draw_text_by_xy (0, 20, 22, 30) 0 dr [''ab'', ''c''] a2)"
  define b2 where "b2 = snd (draw_text_by_xy (0, 32, 22, 42) 1 dr [''ab'', ''c''] b1)"
  have u: "(2 :: nat) = Suc (Suc 0)" by simp
  have ca: "snd (counted_bands 2 12 0 dr [''a'', ''b''] 0 (22, 0, 32, 20) s2) = a2"
    unfolding u by (simp add: counted_bands_Suc a2_def a1_def)
  have cb: "snd (counted_bands 2 0 12 dr [''ab'', ''c''] 0 (0, 20, 22, 30) a2) = b2"
    unfolding u by (simp add: counted_bands_Suc b2_def b1_def)
  have run: "create_grid_annotations info_2x2 [''a'', ''b''] [''ab'', ''c''] tall_font grid_2x2
      = Some (Inr 2, b2)"
    using create_grid_annotations_run [where ctexts = "[''a'', ''b'']" and rtexts = "[''ab'', ''c'']"
      and gi = info_2x2 and tw = 10 and th = 10 and gap = 2 and s = grid_2x2 and mc = 2 and mr = 2
      and fnt = tall_font and lp = 22 and tp = 20]
    by (simp add: tall_font_paddings info_2x2_simps dr_def [symmetric] s2_def [symmetric] ca cb)
  have len: "length (heap s2) = 3" "length (heap a1) = 3" "length (heap a2) = 3" "length (heap b1) = 3"
    using new_accepted [OF info_2x2_simps(8), of white]
    by (simp_all add: s2_def a1_def a2_def b1_def info_2x2_simps)
  have d: "draw_image dr = 2" "draw_font dr = tall_font" by (simp_all add: dr_def)
  have bb: "textbbox tall_font lbl = (0, 0, 6 * int (length lbl), 50)" for lbl
    by (simp add: tall_font_def)
  have p1: "im_px (heap a1 ! 2) 25 24 = RGB 0 0 0"
    using px_draw_text_by_xy [of 0 "[''a'', ''b'']" dr s2 0 0 6 50 22 0 32 20 25 24]
    by (simp add: a1_def d len bb) (simp add: tall_font_def black_def)
  have p2: "im_px (heap a2 ! 2) 25 24 = im_px (heap a1 ! 2) 25 24"
    using px_draw_text_by_xy [of 1 "[''a'', ''b'']" dr a1 0 0 6 50 34 0 44 20 25 24]
    by (simp add: a2_def d len bb) (simp add: tall_font_def)
  have p3: "im_px (heap b1 ! 2) 25 24 = im_px (heap a2 ! 2) 25 24"
    using px_draw_text_by_xy [of 0 "[''ab'', ''c'']" dr a2 0 0 12 50 0 20 22 30 25 24]
    by (simp add: b1_def d len bb) (simp add: tall_font_def)
  have p4: "im_px (heap b2 ! 2) 25 24 = im_px (heap b1 ! 2) 25 24"
    using px_draw_text_by_xy [of 1 "[''ab'', ''c'']" dr b1 0 0 6 50 0 32 22 42 25 24]
    by (simp add: b2_def d len bb) (simp add: tall_font_def)
  have "returned_px (create_grid_annotations info_2x2 [''a'', ''b''] [''ab'', ''c''] tall_font grid_2x2)
     (22 + 3) (20 + 4) = Some (RGB 0 0 0)"
    using p1 p2 p3 p4 by (simp add: run returned_px_def)
  then show ?thesis
    by (simp add: tall_font_paddings info_2x2_simps in_bounds_def)
qed

section \<open>What the tile loop does to the store\<close>

lemma arrange_loop_tiles:
  assumes "mc \<noteq> 0"
  shows "\<forall>r \<in> set imgs. r < length (heap s) \<Longrightarrow> g < length (heap s) \<Longrightarrow> g \<notin> set imgs \<Longrightarrow>
    \<exists>cs. calls (snd (arrange_loop g sz mc gap i imgs s)) = calls s @ cs \<and>
      length (filter is_paste cs) = length imgs \<and>
      (\<forall>k<length imgs. \<exists>src.
         filter is_paste cs ! k =
           Paste g src (((i + int k) mod mc) * (fst sz + gap), ((i + int k) div mc) * (snd sz + gap)) \<and>
         (if im_size (heap s ! (imgs ! k)) = sz then src = imgs ! k
          else length (heap s) \<le> src \<and>
               Crop (imgs ! k) (0, 0, fst sz, snd sz) src \<in> set cs \<and>
               im_size (heap (snd (arrange_loop g sz mc gap i imgs s)) ! src) = sz \<and>
               (\<forall>x y. im_px (heap (snd (arrange_loop g sz mc gap i imgs s)) ! src) x y =
                  (if in_bounds (heap s ! (imgs ! k)) x y then im_px (heap s ! (imgs ! k)) x y
                   else black))))"
proof (induction imgs arbitrary: i s)
  case Nil
  show ?case by simp
next
  case (Cons a imgs)
  define xy where "xy = ((i mod mc) * (fst sz + gap), (i div mc) * (snd sz + gap))"
  define a' where "a' = (if im_size (heap s ! a) = sz then a else length (heap s))"
  define s1 where "s1 = (if im_size (heap s ! a) = sz then s else snd (crop a (0, 0, fst sz, snd sz) s))"
  define pre where "pre = (if im_size (heap s ! a) = sz then [] else [Crop a (0, 0, fst sz, snd sz) a'])"
  define sn where "sn = paste g a' xy s1"
  define s' where "s' = snd (arrange_loop g sz mc gap (i + 1) imgs sn)"
  have step: "snd (arrange_loop g sz mc gap i (a # imgs) s) = s'"
    using assms by (simp add: arrange_loop_same arrange_loop_crop a'_def s1_def xy_def sn_def s'_def)
  have cn: "calls sn = calls s @ pre @ [Paste g a' xy]"
    by (simp add: sn_def s1_def pre_def a'_def)
  have ln: "length (heap s) \<le> length (heap sn)" by (simp add: sn_def s1_def)
  have old: "heap sn ! r = heap s ! r" if "r < length (heap s)" "r \<noteq> g" for r
    using that by (simp add: sn_def s1_def frame_paste frame_crop)
  have v: "\<forall>r \<in> set imgs. r < length (heap sn)" "g < length (heap sn)" "g \<notin> set imgs"
    using Cons.prems ln by auto
  from Cons.IH [OF v, of "i + 1"] obtain cs where
    cs: "calls s' = calls sn @ cs" "length (filter is_paste cs) = length imgs"
      "\<forall>k<length imgs. \<exists>src.
         filter is_paste cs ! k =
           Paste g src (((i + 1 + int k) mod mc) * (fst sz + gap), ((i + 1 + int k) div mc) * (snd sz + gap)) \<and>
         (if im_size (heap sn ! (imgs ! k)) = sz then src = imgs ! k
          else length (heap sn) \<le> src \<and>
               Crop (imgs ! k) (0, 0, fst sz, snd sz) src \<in> set cs \<and>
               im_size (heap s' ! src) = sz \<and>
               (\<forall>x y. im_px (heap s' ! src) x y =
                  (if in_bounds (heap sn ! (imgs ! k)) x y then im_px (heap sn ! (imgs ! k)) x y
                   else black)))"
    unfolding s'_def by blast
  let ?cs = "pre @ [Paste g a' xy] @ cs"
  have f: "filter is_paste ?cs = Paste g a' xy # filter is_paste cs"
    by (simp add: pre_def)
  have c: "calls s' = calls s @ ?cs" using cs(1) cn by simp
  have l: "length (filter is_paste ?cs) = length (a # imgs)" using f cs(2) by simp
  have t: "\<exists>src. filter is_paste ?cs ! k =
           Paste g src (((i + int k) mod mc) * (fst sz + gap), ((i + int k) div mc) * (snd sz + gap)) \<and>
         (if im_size (heap s ! ((a # imgs) ! k)) = sz then src = (a # imgs) ! k
          else length (heap s) \<le> src \<and>
               Crop ((a # imgs) ! k) (0, 0, fst sz, snd sz) src \<in> set ?cs \<and>
               im_size (heap s' ! src) = sz \<and>
               (\<forall>x y. im_px (heap s' ! src) x y =
                  (if in_bounds (heap s ! ((a # imgs) ! k)) x y then im_px (heap s ! ((a # imgs) ! k)) x y
                   else black)))"
    if k: "k < length (a # imgs)" for k
  proof (cases k)
    case 0
    have p: "filter is_paste ?cs ! 0 = Paste g a' xy" using f by simp
    show ?thesis
    proof (cases "im_size (heap s ! a) = sz")
      case True
      then show ?thesis using p 0 by (simp add: a'_def xy_def)
    next
      case False
      then have a': "a' = length (heap s)" and s1: "s1 = snd (crop a (0, 0, fst sz, snd sz) s)"
        by (simp_all add: a'_def s1_def)
      have ag: "a' \<noteq> g" using Cons.prems(2) a' by simp
      have lt: "a' < length (heap sn)" by (simp add: sn_def s1 a')
      have e: "heap s' ! a' = heap s1 ! a'"
        unfolding s'_def using arrange_loop_frame [OF lt ag, of sz mc gap "i + 1" imgs]
        by (simp add: sn_def frame_paste ag)
      have sz': "im_size (heap s' ! a') = sz"
        using size_new_crop [of a "fst sz" "snd sz" s] by (simp only: e) (simp add: s1 a')
      have px': "im_px (heap s' ! a') x y =
          (if in_bounds (heap s ! a) x y then im_px (heap s ! a) x y else black)" for x y
        using px_new_crop [of a "fst sz" "snd sz" s x y] by (simp only: e) (simp add: s1 a')
      have "Crop a (0, 0, fst sz, snd sz) a' \<in> set ?cs" using False by (simp add: pre_def)
      then show ?thesis using p 0 False sz' px' a' by (auto simp: xy_def)
    qed
  next
    case (Suc k')
    then have k': "k' < length imgs" using k by simp
    with cs(3) obtain src where
      src: "filter is_paste cs ! k' =
           Paste g src (((i + 1 + int k') mod mc) * (fst sz + gap), ((i + 1 + int k') div mc) * (snd sz + gap))"
        "if im_size (heap sn ! (imgs ! k')) = sz then src = imgs ! k'
          else length (heap sn) \<le> src \<and>
               Crop (imgs ! k') (0, 0, fst sz, snd sz) src \<in> set cs \<and>
               im_size (heap s' ! src) = sz \<and>
               (\<forall>x y. im_px (heap s' ! src) x y =
                  (if in_bounds (heap sn ! (imgs ! k')) x y then im_px (heap sn ! (imgs ! k')) x y
                   else black))"
      by blast
    have m: "imgs ! k' \<in> set imgs" using k' by simp
    then have "imgs ! k' < length (heap s)" "imgs ! k' \<noteq> g" using Cons.prems by auto
    then have o: "heap sn ! (imgs ! k') = heap s ! (imgs ! k')" by (rule old)
    have e: "i + 1 + int k' = i + int k" using Suc by simp
    have "filter is_paste ?cs ! k = filter is_paste cs ! k'" using f Suc by simp
    then show ?thesis using src ln Suc unfolding e o by (auto split: if_splits)
  qed
  show ?case unfolding step using c l t by blast
qed

text \<open>
  C8. Placing the tiles changes no image of the store but the destination canvas; the
  input images in particular keep their size and their pixels. An image whose size is
  not the tile size is not modified: a new image is allocated by a crop to the box
  \<open>(0, 0, tileWidth, tileHeight)\<close>, it has the tile size, and each of its pixels that
  lies inside the input is the pixel of the input at the same coordinates (the crop is
  anchored at the top left corner and does not scale).
\<close>

theorem tile_placement_frame:
  assumes "max_columns \<noteq> 0"
    and "\<forall>r \<in> set images. r < length (heap s)"
    and "grid_image < length (heap s)" and "grid_image \<notin> set images"
    and "s' = snd (arrange_images_on_grid grid_image images (tileWidth, tileHeight) max_columns gap s)"
  shows "(\<forall>r<length (heap s). r \<noteq> grid_image \<longrightarrow> heap s' ! r = heap s ! r) \<and>
         (\<forall>r \<in> set images. heap s' ! r = heap s ! r) \<and>
         (\<exists>cs. calls s' = calls s @ cs \<and>
            (\<forall>k<length images. im_size (heap s ! (images ! k)) \<noteq> (tileWidth, tileHeight) \<longrightarrow>
               (\<exists>src. filter is_paste cs ! k =
                    Paste grid_image src
                      ((int k mod max_columns) * (tileWidth + gap),
                       (int k div max_columns) * (tileHeight + gap)) \<and>
                  length (heap s) \<le> src \<and>
                  Crop (images ! k) (0, 0, tileWidth, tileHeight) src \<in> set cs \<and>
                  im_size (heap s' ! src) = (tileWidth, tileHeight) \<and>
                  (\<forall>x y. in_bounds (heap s ! (images ! k)) x y \<longrightarrow>
                         im_px (heap s' ! src) x y = im_px (heap s ! (images ! k)) x y))))"
proof -
  have fr: "\<forall>r<length (heap s). r \<noteq> grid_image \<longrightarrow> heap s' ! r = heap s ! r"
    unfolding assms(5) arrange_images_on_grid_def by (simp add: arrange_loop_frame)
  then have inp: "\<forall>r \<in> set images. heap s' ! r = heap s ! r"
    using assms(2,4) by auto
  from arrange_loop_tiles [OF assms(1-4), of "(tileWidth, tileHeight)" gap 0]
  obtain cs where cs: "calls s' = calls s @ cs"
    "\<forall>k<length images. \<exists>src.
         filter is_paste cs ! k =
           Paste grid_image src (((0 + int k) mod max_columns) * (fst (tileWidth, tileHeight) + gap),
              ((0 + int k) div max_columns) * (snd (tileWidth, tileHeight) + gap)) \<and>
         (if im_size (heap s ! (images ! k)) = (tileWidth, tileHeight) then src = images ! k
          else length (heap s) \<le> src \<and>
               Crop (images ! k) (0, 0, fst (tileWidth, tileHeight), snd (tileWidth, tileHeight)) src \<in> set cs \<and>
               im_size (heap s' ! src) = (tileWidth, tileHeight) \<and>
               (\<forall>x y. im_px (heap s' ! src) x y =
                  (if in_bounds (heap s ! (images ! k)) x y then im_px (heap s ! (images ! k)) x y
                   else black)))"
    unfolding assms(5) arrange_images_on_grid_def by blast
  have "\<forall>k<length images. im_size (heap s ! (images ! k)) \<noteq> (tileWidth, tileHeight) \<longrightarrow>
               (\<exists>src. filter is_paste cs ! k =
                    Paste grid_image src
                      ((int k mod max_columns) * (tileWidth + gap),
                       (int k div max_columns) * (tileHeight + gap)) \<and>
                  length (heap s) \<le> src \<and>
                  Crop (images ! k) (0, 0, tileWidth, tileHeight) src \<in> set cs \<and>
                  im_size (heap s' ! src) = (tileWidth, tileHeight) \<and>
                  (\<forall>x y. in_bounds (heap s ! (images ! k)) x y \<longrightarrow>
                         im_px (heap s' ! src) x y = im_px (heap s ! (images ! k)) x y))"
  proof (intro allI impI)
    fix k assume k: "k < length images" and ne: "im_size (heap s ! (images ! k)) \<noteq> (tileWidth, tileHeight)"
    from cs(2) k obtain src where
      "filter is_paste cs ! k =
           Paste grid_image src (((0 + int k) mod max_columns) * (fst (tileWidth, tileHeight) + gap),
              ((0 + int k) div max_columns) * (snd (tileWidth, tileHeight) + gap))"
      "if im_size (heap s ! (images ! k)) = (tileWidth, tileHeight) then src = images ! k
          else length (heap s) \<le> src \<and>
               Crop (images ! k) (0, 0, fst (tileWidth, tileHeight), snd (tileWidth, tileHeight)) src \<in> set cs \<and>
               im_size (heap s' ! src) = (tileWidth, tileHeight) \<and>
               (\<forall>x y. im_px (heap s' ! src) x y =
                  (if in_bounds (heap s ! (images ! k)) x y then im_px (heap s ! (images ! k)) x y
                   else black))"
      by blast
    then show "\<exists>src. filter is_paste cs ! k =
                    Paste grid_image src
                      ((int k mod max_columns) * (tileWidth + gap),
                       (int k div max_columns) * (tileHeight + gap)) \<and>
                  length (heap s) \<le> src \<and>
                  Crop (images ! k) (0, 0, tileWidth, tileHeight) src \<in> set cs \<and>
                  im_size (heap s' ! src) = (tileWidth, tileHeight) \<and>
                  (\<forall>x y. in_bounds (heap s ! (images ! k)) x y \<longrightarrow>
                         im_px (heap s' ! src) x y = im_px (heap s ! (images ! k)) x y)"
      using ne by simp
  qed
  then show ?thesis using fr inp cs(1) by blast
qed

text \<open>
  C4, amended. An input image is pasted as it is only when its size is the tile size.
  An image of any other size, a strictly smaller one included, is cropped to the box
  \<open>(0, 0, tileWidth, tileHeight)\<close> first: what is pasted is a new image, of exactly the
  tile size, that holds the pixels of the input where the input has some and is black
  elsewhere. With at least one column and a gap that is not negative, that is what the
  canvas shows in the cell of the image after the loop.
\<close>

theorem resized_tiles_are_cropped:
  assumes "max_columns \<noteq> 0"
    and "\<forall>r \<in> set images. r < length (heap s)"
    and "grid_image < length (heap s)" and "grid_image \<notin> set images"
    and "s' = snd (arrange_images_on_grid grid_image images (tileWidth, tileHeight) max_columns gap s)"
  shows "(\<exists>cs. calls s' = calls s @ cs \<and>
           (\<forall>k<length images. \<exists>src.
              filter is_paste cs ! k =
                Paste grid_image src
                  ((int k mod max_columns) * (tileWidth + gap),
                   (int k div max_columns) * (tileHeight + gap)) \<and>
              (im_size (heap s ! (images ! k)) = (tileWidth, tileHeight) \<longrightarrow> src = images ! k) \<and>
              (im_size (heap s ! (images ! k)) \<noteq> (tileWidth, tileHeight) \<longrightarrow>
                 length (heap s) \<le> src \<and> src \<noteq> images ! k \<and>
                 Crop (images ! k) (0, 0, tileWidth, tileHeight) src \<in> set cs \<and>
                 im_size (heap s' ! src) = (tileWidth, tileHeight) \<and>
                 (\<forall>x y. im_px (heap s' ! src) x y =
                    (if in_bounds (heap s ! (images ! k)) x y
                     then im_px (heap s ! (images ! k)) x y else black))))) \<and>
         (1 \<le> max_columns \<and> 0 \<le> gap \<and> 0 \<le> tileWidth \<and> 0 \<le> tileHeight \<longrightarrow>
           (\<forall>k<length images. \<forall>u v. 0 \<le> u \<and> u < tileWidth \<and> 0 \<le> v \<and> v < tileHeight \<longrightarrow>
              im_px (heap s' ! grid_image)
                ((int k mod max_columns) * (tileWidth + gap) + u)
                ((int k div max_columns) * (tileHeight + gap) + v)
              = (if in_bounds (heap s ! (images ! k)) u v
                 then im_px (heap s ! (images ! k)) u v else black)))"
proof (intro conjI impI)
  from arrange_loop_tiles [OF assms(1-4), of "(tileWidth, tileHeight)" gap 0]
  obtain cs where cs: "calls s' = calls s @ cs"
    "\<forall>k<length images. \<exists>src.
         filter is_paste cs ! k =
           Paste grid_image src (((0 + int k) mod max_columns) * (fst (tileWidth, tileHeight) + gap),
              ((0 + int k) div max_columns) * (snd (tileWidth, tileHeight) + gap)) \<and>
         (if im_size (heap s ! (images ! k)) = (tileWidth, tileHeight) then src = images ! k
          else length (heap s) \<le> src \<and>
               Crop (images ! k) (0, 0, fst (tileWidth, tileHeight), snd (tileWidth, tileHeight)) src \<in> set cs \<and>
               im_size (heap s' ! src) = (tileWidth, tileHeight) \<and>
               (\<forall>x y. im_px (heap s' ! src) x y =
                  (if in_bounds (heap s ! (images ! k)) x y then im_px (heap s ! (images ! k)) x y
                   else black)))"
    unfolding assms(5) arrange_images_on_grid_def by blast
  have "\<forall>k<length images. \<exists>src.
              filter is_paste cs ! k =
                Paste grid_image src
                  ((int k mod max_columns) * (tileWidth + gap),
                   (int k div max_columns) * (tileHeight + gap)) \<and>
              (im_size (heap s ! (images ! k)) = (tileWidth, tileHeight) \<longrightarrow> src = images ! k) \<and>
              (im_size (heap s ! (images ! k)) \<noteq> (tileWidth, tileHeight) \<longrightarrow>
                 length (heap s) \<le> src \<and> src \<noteq> images ! k \<and>
                 Crop (images ! k) (0, 0, tileWidth, tileHeight) src \<in> set cs \<and>
                 im_size (heap s' ! src) = (tileWidth, tileHeight) \<and>
                 (\<forall>x y. im_px (heap s' ! src) x y =
                    (if in_bounds (heap s ! (images ! k)) x y
                     then im_px (heap s ! (images ! k)) x y else black)))"
  proof (intro allI impI)
    fix k assume k: "k < length images"
    then have v: "images ! k < length (heap s)" using assms(2) by simp
    from cs(2) k obtain src where
      src: "filter is_paste cs ! k =
           Paste grid_image src (((0 + int k) mod max_columns) * (fst (tileWidth, tileHeight) + gap),
              ((0 + int k) div max_columns) * (snd (tileWidth, tileHeight) + gap))"
      "if im_size (heap s ! (images ! k)) = (tileWidth, tileHeight) then src = images ! k
          else length (heap s) \<le> src \<and>
               Crop (images ! k) (0, 0, fst (tileWidth, tileHeight), snd (tileWidth, tileHeight)) src \<in> set cs \<and>
               im_size (heap s' ! src) = (tileWidth, tileHeight) \<and>
               (\<forall>x y. im_px (heap s' ! src) x y =
                  (if in_bounds (heap s ! (images ! k)) x y then im_px (heap s ! (images ! k)) x y
                   else black))"
      by blast
    show "\<exists>src.
              filter is_paste cs ! k =
                Paste grid_image src
                  ((int k mod max_columns) * (tileWidth + gap),
                   (int k div max_columns) * (tileHeight + gap)) \<and>
              (im_size (heap s ! (images ! k)) = (tileWidth, tileHeight) \<longrightarrow> src = images ! k) \<and>
              (im_size (heap s ! (images ! k)) \<noteq> (tileWidth, tileHeight) \<longrightarrow>
                 length (heap s) \<le> src \<and> src \<noteq> images ! k \<and>
                 Crop (images ! k) (0, 0, tileWidth, tileHeight) src \<in> set cs \<and>
                 im_size (heap s' ! src) = (tileWidth, tileHeight) \<and>
                 (\<forall>x y. im_px (heap s' ! src) x y =
                    (if in_bounds (heap s ! (images ! k)) x y
                     then im_px (heap s ! (images ! k)) x y else black)))"
    proof (cases "im_size (heap s ! (images ! k)) = (tileWidth, tileHeight)")
      case True
      then show ?thesis using src by (intro exI [of _ src]) simp
    next
      case False
      then show ?thesis using src v by (intro exI [of _ src]) simp
    qed
  qed
  then show "\<exists>cs. calls s' = calls s @ cs \<and>
           (\<forall>k<length images. \<exists>src.
              filter is_paste cs ! k =
                Paste grid_image src
                  ((int k mod max_columns) * (tileWidth + gap),
                   (int k div max_columns) * (tileHeight + gap)) \<and>
              (im_size (heap s ! (images ! k)) = (tileWidth, tileHeight) \<longrightarrow> src = images ! k) \<and>
              (im_size (heap s ! (images ! k)) \<noteq> (tileWidth, tileHeight) \<longrightarrow>
                 length (heap s) \<le> src \<and> src \<noteq> images ! k \<and>
                 Crop (images ! k) (0, 0, tileWidth, tileHeight) src \<in> set cs \<and>
                 im_size (heap s' ! src) = (tileWidth, tileHeight) \<and>
                 (\<forall>x y. im_px (heap s' ! src) x y =
                    (if in_bounds (heap s ! (images ! k)) x y
                     then im_px (heap s ! (images ! k)) x y else black))))"
    using cs(1) by (intro exI [of _ cs] conjI)
next
  assume h: "1 \<le> max_columns \<and> 0 \<le> gap \<and> 0 \<le> tileWidth \<and> 0 \<le> tileHeight"
  then have g: "1 \<le> max_columns" "0 \<le> gap" "0 \<le> fst (tileWidth, tileHeight)"
    "0 \<le> snd (tileWidth, tileHeight)"
    by simp_all
  note px = arrange_loop_pixels [OF g assms(2-4), of 0]
  show "\<forall>k<length images. \<forall>u v. 0 \<le> u \<and> u < tileWidth \<and> 0 \<le> v \<and> v < tileHeight \<longrightarrow>
              im_px (heap s' ! grid_image)
                ((int k mod max_columns) * (tileWidth + gap) + u)
                ((int k div max_columns) * (tileHeight + gap) + v)
              = (if in_bounds (heap s ! (images ! k)) u v
                 then im_px (heap s ! (images ! k)) u v else black)"
  proof (intro allI impI)
    fix k u v
    assume k: "k < length images" and uv: "0 \<le> u \<and> u < tileWidth \<and> 0 \<le> v \<and> v < tileHeight"
    let ?o = "tile_origin max_columns gap (tileWidth, tileHeight) (0 + int k)"
    have "in_tile ?o (tileWidth, tileHeight) (fst ?o + u) (snd ?o + v)"
      using uv by (simp add: in_tile_def)
    with px k have "im_px (heap s' ! grid_image) (fst ?o + u) (snd ?o + v) =
        tile_px (heap s ! (images ! k)) (fst ?o + u - fst ?o) (snd ?o + v - snd ?o)"
      unfolding assms(5) arrange_images_on_grid_def by blast
    then show "im_px (heap s' ! grid_image)
                ((int k mod max_columns) * (tileWidth + gap) + u)
                ((int k div max_columns) * (tileHeight + gap) + v)
              = (if in_bounds (heap s ! (images ! k)) u v
                 then im_px (heap s ! (images ! k)) u v else black)"
      by (simp add: tile_origin_def tile_px_def)
  qed
qed

text \<open>
  The claim as stated fails: the image of 4 by 4 pixels is cropped to 10 by 10, the crop
  (the reference 3) is what is pasted, and the canvas is black at \<open>(17, 5)\<close>, inside
  the second tile and outside the 4 by 4 input.
\<close>

theorem pasted_as_is_counterexample:
  "im_size (heap two_sizes ! 0) = (10, 10) \<and> im_size (heap two_sizes ! 1) = (4, 4) \<and>
   calls (snd (arrange_images_on_grid 2 [0, 1] (10, 10) 2 2 two_sizes)) =
     [Paste 2 0 (0, 0), Crop 1 (0, 0, 10, 10) 3, Paste 2 3 (12, 0)] \<and>
   im_size (heap (snd (arrange_images_on_grid 2 [0, 1] (10, 10) 2 2 two_sizes)) ! 3) = (10, 10) \<and>
   im_px (heap (snd (arrange_images_on_grid 2 [0, 1] (10, 10) 2 2 two_sizes)) ! 2) 17 5 = RGB 0 0 0"
  by (simp add: arrange_images_on_grid_def arrange_loop_same arrange_loop_crop two_sizes_simps)
     (simp add: crop_def paste_def two_sizes_simps in_bounds_def black_def nth_append)

theorem tile_placement_frame_witness:
  "heap (snd (arrange_images_on_grid 2 [0, 1] (10, 10) 2 2 two_sizes)) ! 0 = heap two_sizes ! 0 \<and>
   heap (snd (arrange_images_on_grid 2 [0, 1] (10, 10) 2 2 two_sizes)) ! 1 = heap two_sizes ! 1 \<and>
   (\<exists>cs src. calls (snd (arrange_images_on_grid 2 [0, 1] (10, 10) 2 2 two_sizes)) = cs \<and>
      filter is_paste cs ! 1 = Paste 2 src (12, 0) \<and> 3 \<le> src \<and>
      Crop 1 (0, 0, 10, 10) src \<in> set cs \<and>
      im_px (heap (snd (arrange_images_on_grid 2 [0, 1] (10, 10) 2 2 two_sizes)) ! src) 3 3 = RGB 0 200 0)"
proof -
  define t where "t = snd (arrange_images_on_grid 2 [0, 1] (10, 10) 2 2 two_sizes)"
  have h: "(2 :: int) \<noteq> 0" "\<forall>r \<in> set [0, 1 :: nat]. r < length (heap two_sizes)"
    "2 < length (heap two_sizes)" "2 \<notin> set [0, 1 :: nat]"
    by (simp_all add: two_sizes_simps)
  note th = tile_placement_frame [OF h t_def]
  from th have a: "heap t ! 0 = heap two_sizes ! 0" "heap t ! 1 = heap two_sizes ! 1"
    by simp_all
  from th obtain cs where cs: "calls t = calls two_sizes @ cs"
    "\<forall>k<length [0, 1 :: nat]. im_size (heap two_sizes ! ([0, 1] ! k)) \<noteq> (10, 10) \<longrightarrow>
       (\<exists>src. filter is_paste cs ! k = Paste 2 src ((int k mod 2) * (10 + 2), (int k div 2) * (10 + 2)) \<and>
          length (heap two_sizes) \<le> src \<and>
          Crop ([0, 1] ! k) (0, 0, 10, 10) src \<in> set cs \<and>
          im_size (heap t ! src) = (10, 10) \<and>
          (\<forall>x y. in_bounds (heap two_sizes ! ([0, 1] ! k)) x y \<longrightarrow>
             im_px (heap t ! src) x y = im_px (heap two_sizes ! ([0, 1] ! k)) x y))"
    by blast
  from cs(2) [rule_format, of 1] obtain src where
    src: "filter is_paste cs ! 1 = Paste 2 src (12, 0)" "3 \<le> src" "Crop 1 (0, 0, 10, 10) src \<in> set cs"
      "\<forall>x y. in_bounds (heap two_sizes ! 1) x y \<longrightarrow> im_px (heap t ! src) x y = RGB 0 200 0"
    by (auto simp: two_sizes_simps)
  have "in_bounds (heap two_sizes ! 1) 3 3" by (simp add: in_bounds_def two_sizes_simps)
  with src(4) have "im_px (heap t ! src) 3 3 = RGB 0 200 0" by blast
  then show ?thesis
    using a src(1-3) cs(1) unfolding t_def [symmetric] by (auto simp: two_sizes_simps)
qed

theorem resized_tiles_are_cropped_witness:
  "(\<exists>cs src. calls (snd (arrange_images_on_grid 2 [0, 1] (10, 10) 2 2 two_sizes)) = cs \<and>
      filter is_paste cs ! 0 = Paste 2 0 (0, 0) \<and>
      filter is_paste cs ! 1 = Paste 2 src (12, 0) \<and> 3 \<le> src \<and> src \<noteq> 1 \<and>
      Crop 1 (0, 0, 10, 10) src \<in> set cs \<and>
      im_size (heap (snd (arrange_images_on_grid 2 [0, 1] (10, 10) 2 2 two_sizes)) ! src) = (10, 10) \<and>
      im_px (heap (snd (arrange_images_on_grid 2 [0, 1] (10, 10) 2 2 two_sizes)) ! src) 3 3 = RGB 0 200 0 \<and>
      im_px (heap (snd (arrange_images_on_grid 2 [0, 1] (10, 10) 2 2 two_sizes)) ! src) 5 5 = black) \<and>
   im_px (heap (snd (arrange_images_on_grid 2 [0, 1] (10, 10) 2 2 two_sizes)) ! 2) 15 3 = RGB 0 200 0 \<and>
   im_px (heap (snd (arrange_images_on_grid 2 [0, 1] (10, 10) 2 2 two_sizes)) ! 2) 17 5 = black"
proof -
  define t where "t = snd (arrange_images_on_grid 2 [0, 1] (10, 10) 2 2 two_sizes)"
  have h: "(2 :: int) \<noteq> 0" "\<forall>r \<in> set [0, 1 :: nat]. r < length (heap two_sizes)"
    "2 < length (heap two_sizes)" "2 \<notin> set [0, 1 :: nat]"
    by (simp_all add: two_sizes_simps)
  note th = resized_tiles_are_cropped [OF h t_def]
  from th [THEN conjunct1] obtain cs where cs: "calls t = calls two_sizes @ cs"
    "\<forall>k<length [0, 1 :: nat]. \<exists>src.
        filter is_paste cs ! k = Paste 2 src ((int k mod 2) * (10 + 2), (int k div 2) * (10 + 2)) \<and>
        (im_size (heap two_sizes ! ([0, 1] ! k)) = (10, 10) \<longrightarrow> src = [0, 1] ! k) \<and>
        (im_size (heap two_sizes ! ([0, 1] ! k)) \<noteq> (10, 10) \<longrightarrow>
           length (heap two_sizes) \<le> src \<and> src \<noteq> [0, 1] ! k \<and>
           Crop ([0, 1] ! k) (0, 0, 10, 10) src \<in> set cs \<and>
           im_size (heap t ! src) = (10, 10) \<and>
           (\<forall>x y. im_px (heap t ! src) x y =
              (if in_bounds (heap two_sizes ! ([0, 1] ! k)) x y
               then im_px (heap two_sizes ! ([0, 1] ! k)) x y else black)))"
    by blast
  from cs(2) [rule_format, of 0] have p0: "filter is_paste cs ! 0 = Paste 2 0 (0, 0)"
    by (auto simp: two_sizes_simps)
  from cs(2) [rule_format, of 1] obtain src where
    src: "filter is_paste cs ! 1 = Paste 2 src (12, 0)" "3 \<le> src" "src \<noteq> 1"
      "Crop 1 (0, 0, 10, 10) src \<in> set cs"
      "im_size (heap t ! src) = (10, 10)"
      "\<forall>x y. im_px (heap t ! src) x y =
         (if in_bounds (heap two_sizes ! 1) x y then RGB 0 200 0 else black)"
    by (auto simp: two_sizes_simps)
  have i: "in_bounds (heap two_sizes ! 1) 3 3" "\<not> in_bounds (heap two_sizes ! 1) 5 5"
    by (simp_all add: in_bounds_def two_sizes_simps)
  from src(6) i have q: "im_px (heap t ! src) 3 3 = RGB 0 200 0" "im_px (heap t ! src) 5 5 = black"
    by simp_all
  have g: "1 \<le> (2 :: int) \<and> 0 \<le> (2 :: int) \<and> 0 \<le> (10 :: int) \<and> 0 \<le> (10 :: int)" by simp
  from th [THEN conjunct2] g have
    cv: "\<forall>k<length [0, 1 :: nat]. \<forall>u v. 0 \<le> u \<and> u < 10 \<and> 0 \<le> v \<and> v < 10 \<longrightarrow>
              im_px (heap t ! 2) ((int k mod 2) * (10 + 2) + u) ((int k div 2) * (10 + 2) + v)
              = (if in_bounds (heap two_sizes ! ([0, 1] ! k)) u v
                 then im_px (heap two_sizes ! ([0, 1] ! k)) u v else black)"
    by blast
  from cv [rule_format, of 1 3 3] i have c1: "im_px (heap t ! 2) 15 3 = RGB 0 200 0"
    by (simp add: two_sizes_simps)
  from cv [rule_format, of 1 5 5] i have c2: "im_px (heap t ! 2) 17 5 = black"
    by (simp add: two_sizes_simps)
  have "\<exists>cs src. calls t = cs \<and>
      filter is_paste cs ! 0 = Paste 2 0 (0, 0) \<and>
      filter is_paste cs ! 1 = Paste 2 src (12, 0) \<and> 3 \<le> src \<and> src \<noteq> 1 \<and>
      Crop 1 (0, 0, 10, 10) src \<in> set cs \<and>
      im_size (heap t ! src) = (10, 10) \<and>
      im_px (heap t ! src) 3 3 = RGB 0 200 0 \<and>
      im_px (heap t ! src) 5 5 = black"
    using p0 src(1-5) q cs(1) by (intro exI [of _ cs] exI [of _ src]) (simp add: two_sizes_simps)
  then show ?thesis using c1 c2 unfolding t_def by blast
qed

end
